theory Spec2Isabelle
  imports Complex_Main
begin

section \<open>Scalars and exceptions\<close>

text \<open>
  The arrays of the program hold floating-point numbers. A scalar is modelled as an exact
  real number or one of the three special values of IEEE 754; rounding and the sign of
  zero are not modelled. Arithmetic on the special values follows IEEE 754: an operation
  with a NaN operand is NaN, \<open>inf - inf\<close>, \<open>0 * inf\<close>, \<open>0 / 0\<close> and
  \<open>inf / inf\<close> are NaN, and a non-zero number divided by zero is an infinity (numpy
  warns and does not raise).
\<close>

datatype scalar = Fin real | PInf | NInf | NaN

text \<open>
  The exceptions of the model. \<open>KeyboardInterrupt\<close> and \<open>SystemExit\<close> derive from
  \<open>BaseException\<close> only; the others are subclasses of \<open>Exception\<close>, which is what the
  handler of \<open>SignTranslator.predict\<close> catches. An exception is raised where the model
  says so (by the external classifier, by the console, by a library call); the delivery
  of a signal between two statements is not modelled.
\<close>

datatype py_exception =
  ValueError | IndexError | ZeroDivisionError | OverflowError | RuntimeError | OSError
  | KeyboardInterrupt | SystemExit

fun is_Exception :: "py_exception \<Rightarrow> bool" where
  "is_Exception KeyboardInterrupt = False"
| "is_Exception SystemExit = False"
| "is_Exception _ = True"

definition bind_exc :: "'e + 'a \<Rightarrow> ('a \<Rightarrow> 'e + 'b) \<Rightarrow> 'e + 'b" where
  "bind_exc m f = (case m of Inl e \<Rightarrow> Inl e | Inr x \<Rightarrow> f x)"

fun is_nan :: "scalar \<Rightarrow> bool" where
  "is_nan NaN = True"
| "is_nan _ = False"

fun is_inf :: "scalar \<Rightarrow> bool" where
  "is_inf PInf = True"
| "is_inf NInf = True"
| "is_inf _ = False"

fun is_fin :: "scalar \<Rightarrow> bool" where
  "is_fin (Fin _) = True"
| "is_fin _ = False"

fun fneg :: "scalar \<Rightarrow> scalar" where
  "fneg (Fin a) = Fin (- a)"
| "fneg PInf = NInf"
| "fneg NInf = PInf"
| "fneg NaN = NaN"

fun fadd :: "scalar \<Rightarrow> scalar \<Rightarrow> scalar" where
  "fadd NaN _ = NaN"
| "fadd _ NaN = NaN"
| "fadd (Fin a) (Fin b) = Fin (a + b)"
| "fadd (Fin _) PInf = PInf"
| "fadd (Fin _) NInf = NInf"
| "fadd PInf NInf = NaN"
| "fadd PInf _ = PInf"
| "fadd NInf PInf = NaN"
| "fadd NInf _ = NInf"

definition fsub :: "scalar \<Rightarrow> scalar \<Rightarrow> scalar" where
  "fsub a b = fadd a (fneg b)"

fun fmul :: "scalar \<Rightarrow> scalar \<Rightarrow> scalar" where
  "fmul NaN _ = NaN"
| "fmul _ NaN = NaN"
| "fmul (Fin a) (Fin b) = Fin (a * b)"
| "fmul (Fin a) PInf = (if a = 0 then NaN else if 0 < a then PInf else NInf)"
| "fmul (Fin a) NInf = (if a = 0 then NaN else if 0 < a then NInf else PInf)"
| "fmul PInf (Fin b) = (if b = 0 then NaN else if 0 < b then PInf else NInf)"
| "fmul NInf (Fin b) = (if b = 0 then NaN else if 0 < b then NInf else PInf)"
| "fmul PInf PInf = PInf"
| "fmul PInf NInf = NInf"
| "fmul NInf PInf = NInf"
| "fmul NInf NInf = PInf"

fun fdiv :: "scalar \<Rightarrow> scalar \<Rightarrow> scalar" where
  "fdiv NaN _ = NaN"
| "fdiv _ NaN = NaN"
| "fdiv (Fin a) (Fin b) =
     (if b = 0 then (if a = 0 then NaN else if 0 < a then PInf else NInf)
      else Fin (a / b))"
| "fdiv (Fin _) PInf = Fin 0"
| "fdiv (Fin _) NInf = Fin 0"
| "fdiv PInf (Fin b) = (if 0 \<le> b then PInf else NInf)"
| "fdiv NInf (Fin b) = (if 0 \<le> b then NInf else PInf)"
| "fdiv PInf _ = NaN"
| "fdiv NInf _ = NaN"

text \<open>Comparisons: every comparison with a NaN operand is false.\<close>

fun flt :: "scalar \<Rightarrow> scalar \<Rightarrow> bool" where
  "flt NaN _ = False"
| "flt _ NaN = False"
| "flt (Fin a) (Fin b) = (a < b)"
| "flt (Fin _) PInf = True"
| "flt (Fin _) NInf = False"
| "flt PInf _ = False"
| "flt NInf NInf = False"
| "flt NInf _ = True"

definition fgt :: "scalar \<Rightarrow> scalar \<Rightarrow> bool" where
  "fgt a b = flt b a"

text \<open>
  The landmark arrays are \<open>float32\<close> (\<open>_extract_landmarks\<close> builds them so). The result
  of an arithmetic operation whose exact value is beyond the largest finite \<open>float32\<close>
  number is an infinity (numpy warns and does not raise).
\<close>

definition float_max :: real where
  "float_max = (2 - 1 / 2 ^ 23) * 2 ^ 127"

fun overflow32 :: "scalar \<Rightarrow> scalar" where
  "overflow32 (Fin r) =
     (if float_max < r then PInf else if r < - float_max then NInf else Fin r)"
| "overflow32 s = s"

definition arr_sub :: "scalar \<Rightarrow> scalar \<Rightarrow> scalar" where
  "arr_sub a b = overflow32 (fsub a b)"

definition arr_mul :: "scalar \<Rightarrow> scalar \<Rightarrow> scalar" where
  "arr_mul a b = overflow32 (fmul a b)"

definition arr_div :: "scalar \<Rightarrow> scalar \<Rightarrow> scalar" where
  "arr_div a b = overflow32 (fdiv a b)"

text \<open>
  \<open>np.min\<close> and \<open>np.max\<close> over a one-dimensional array: a NaN in the array is the
  result, and an empty array raises \<open>ValueError\<close>.
\<close>

definition fmin2 :: "scalar \<Rightarrow> scalar \<Rightarrow> scalar" where
  "fmin2 a b = (if is_nan a then a else if is_nan b then b else if flt b a then b else a)"

definition fmax2 :: "scalar \<Rightarrow> scalar \<Rightarrow> scalar" where
  "fmax2 a b = (if is_nan a then a else if is_nan b then b else if fgt b a then b else a)"

fun np_min :: "scalar list \<Rightarrow> py_exception + scalar" where
  "np_min [] = Inl ValueError"
| "np_min (x # xs) = Inr (foldl fmin2 x xs)"

fun np_max :: "scalar list \<Rightarrow> py_exception + scalar" where
  "np_max [] = Inl ValueError"
| "np_max (x # xs) = Inr (foldl fmax2 x xs)"

text \<open>
  Python's built-in \<open>max(a, b)\<close> keeps \<open>a\<close> unless \<open>b > a\<close>; with \<open>a\<close> NaN the
  comparison is false and the result is NaN.
\<close>

definition py_max2 :: "scalar \<Rightarrow> scalar \<Rightarrow> scalar" where
  "py_max2 a b = (if fgt b a then b else a)"

section \<open>Landmark normalisation (sign\_detector.py)\<close>

text \<open>
  A flat array of 63 numbers is reshaped into 21 rows \<open>(x, y, z)\<close>;
  \<open>reshape(21, 3)\<close> raises \<open>ValueError\<close> on any other size. \<open>flatten\<close> is the
  inverse, row by row.
\<close>

fun rows3 :: "'a list \<Rightarrow> ('a \<times> 'a \<times> 'a) list" where
  "rows3 (x # y # z # rest) = (x, y, z) # rows3 rest"
| "rows3 _ = []"

definition reshape_21_3 :: "scalar list \<Rightarrow> py_exception + (scalar \<times> scalar \<times> scalar) list" where
  "reshape_21_3 a = (if length a = 63 then Inr (rows3 a) else Inl ValueError)"

definition flatten :: "('a \<times> 'a \<times> 'a) list \<Rightarrow> 'a list" where
  "flatten rs = concat (map (\<lambda>(x, y, z). [x, y, z]) rs)"

definition first_row :: "'a list \<Rightarrow> py_exception + 'a" where
  "first_row rs = (case rs of [] \<Rightarrow> Inl IndexError | r # _ \<Rightarrow> Inr r)"

definition col_x :: "('a \<times> 'a \<times> 'a) list \<Rightarrow> 'a list" where
  "col_x rs = map (\<lambda>(x, y, z). x) rs"

definition col_y :: "('a \<times> 'a \<times> 'a) list \<Rightarrow> 'a list" where
  "col_y rs = map (\<lambda>(x, y, z). y) rs"

text \<open>
  Lines 113 to 118 of \<open>preprocess_landmarks\<close>: minimum and clamped range of one
  coordinate column, \<open>c_range = max(c_max - c_min, 1)\<close>.
\<close>

definition axis_min_range :: "scalar list \<Rightarrow> py_exception + (scalar \<times> scalar)" where
  "axis_min_range coords =
     bind_exc (np_min coords) (\<lambda>c_min.
     bind_exc (np_max coords) (\<lambda>c_max.
       Inr (c_min, py_max2 (arr_sub c_max c_min) (Fin 1))))"

text \<open>Lines 121 and 122: \<open>(c - c_min) / c_range * 2 - 1\<close>.\<close>

definition rescale :: "scalar \<Rightarrow> scalar \<Rightarrow> scalar \<Rightarrow> scalar" where
  "rescale c_min c_range c =
     arr_sub (arr_mul (arr_div (arr_sub c c_min) c_range) (Fin 2)) (Fin 1)"

text \<open>
  Lines 103 to 107 of \<open>preprocess_landmarks\<close>: reshape, and subtract the wrist
  (row 0) from every row.
\<close>

definition translate_to_wrist ::
  "scalar list \<Rightarrow> py_exception + (scalar \<times> scalar \<times> scalar) list" where
  "translate_to_wrist a =
     bind_exc (reshape_21_3 a) (\<lambda>landmarks_reshaped.
     bind_exc (first_row landmarks_reshaped) (\<lambda>(wx, wy, wz).
       Inr (map (\<lambda>(x, y, z). (arr_sub x wx, arr_sub y wy, arr_sub z wz))
              landmarks_reshaped)))"

definition preprocess_landmarks :: "scalar list option \<Rightarrow> py_exception + scalar list option" where
  "preprocess_landmarks landmarks =
     (case landmarks of
        None \<Rightarrow> Inr None
      | Some a \<Rightarrow>
          bind_exc (translate_to_wrist a) (\<lambda>normalized_landmarks.
          bind_exc (axis_min_range (col_x normalized_landmarks)) (\<lambda>(x_min, x_range).
          bind_exc (axis_min_range (col_y normalized_landmarks)) (\<lambda>(y_min, y_range).
            Inr (Some (flatten
              (map (\<lambda>(x, y, z). (rescale x_min x_range x, rescale y_min y_range y, z))
                 normalized_landmarks)))))))"

section \<open>Landmark validation (utils.py)\<close>

definition validate_landmarks :: "scalar list option \<Rightarrow> py_exception + bool" where
  "validate_landmarks landmarks =
     (case landmarks of
        None \<Rightarrow> Inr False
      | Some a \<Rightarrow>
          if length a \<noteq> 63 then Inr False
          else if list_ex is_nan a \<or> list_ex is_inf a then Inr False
          else bind_exc (reshape_21_3 a) (\<lambda>landmarks_reshaped.
            let x_coords = col_x landmarks_reshaped;
                y_coords = col_y landmarks_reshaped
            in if list_ex (\<lambda>x. flt x (Fin (- 1000))) x_coords
                  \<or> list_ex (\<lambda>x. fgt x (Fin 1000)) x_coords then Inr False
               else if list_ex (\<lambda>y. flt y (Fin (- 1000))) y_coords
                  \<or> list_ex (\<lambda>y. fgt y (Fin 1000)) y_coords then Inr False
               else Inr True))"

section \<open>Configuration (config.py)\<close>

text \<open>
  The module-level constants that the translator reads (\<open>ASL_CLASSES\<close> is the list of
  the 26 one-letter strings \<open>A\<close> to \<open>Z\<close>). They are read when the
  translator is constructed (\<open>SMOOTHING_WINDOW\<close>) and at every call of \<open>predict\<close>
  (\<open>GESTURE_THRESHOLD\<close>, \<open>ASL_CLASSES\<close>), so the model passes them as a record.
\<close>

record config =
  GESTURE_THRESHOLD :: scalar
  SMOOTHING_WINDOW :: int
  ASL_CLASSES :: "string list"

definition default_config :: config where
  "default_config =
     \<lparr>GESTURE_THRESHOLD = Fin (7 / 10),
      SMOOTHING_WINDOW = 5,
      ASL_CLASSES = map (\<lambda>c. [c]) ''ABCDEFGHIJKLMNOPQRSTUVWXYZ''\<rparr>"

section \<open>The bounded history (collections.deque)\<close>

text \<open>
  \<open>deque(maxlen=n)\<close> converts \<open>n\<close> to a machine integer of 64 bits and raises
  \<open>OverflowError\<close> when it does not fit; it raises \<open>ValueError\<close> for a negative
  \<open>n\<close>. \<open>append\<close> adds the item on the right and, when the length then exceeds
  \<open>maxlen\<close>, removes the leftmost item.
\<close>

record deque =
  maxlen :: nat
  items :: "(string \<times> scalar) list"

definition deque_new :: "int \<Rightarrow> py_exception + deque" where
  "deque_new n =
     (if n < - (2 ^ 63) \<or> 2 ^ 63 \<le> n then Inl OverflowError
      else if n < 0 then Inl ValueError
      else Inr \<lparr>maxlen = nat n, items = []\<rparr>)"

definition deque_append :: "deque \<Rightarrow> string \<times> scalar \<Rightarrow> deque" where
  "deque_append d x =
     (let ys = items d @ [x]
      in d\<lparr>items := (if maxlen d < length ys then tl ys else ys)\<rparr>)"

definition deque_clear :: "deque \<Rightarrow> deque" where
  "deque_clear d = d\<lparr>items := []\<rparr>"

section \<open>The translator (translator.py)\<close>

text \<open>
  The trained model is external: a classifier maps the input row to the row of class
  probabilities \<open>predictions[0]\<close>, or raises. The field \<open>model\<close> is \<open>None\<close> when no
  model file was found or loading it failed.
\<close>

type_synonym classifier = "scalar list \<Rightarrow> py_exception + scalar list"

record translator =
  model :: "classifier option"
  prediction_history :: deque
  current_prediction :: string
  current_confidence :: scalar

text \<open>
  \<open>__init__\<close>: the history is created first, then the model is loaded; \<open>loaded\<close> is
  the outcome of \<open>_load_model\<close>.
\<close>

definition SignTranslator_init :: "config \<Rightarrow> classifier option \<Rightarrow> py_exception + translator" where
  "SignTranslator_init cfg loaded =
     bind_exc (deque_new (SMOOTHING_WINDOW cfg)) (\<lambda>h.
       Inr \<lparr>model = loaded, prediction_history = h,
            current_prediction = [], current_confidence = Fin 0\<rparr>)"

text \<open>
  The tally dictionary keeps its keys in insertion order: a label seen for the first time
  is added at the end, a label already present is incremented in place.
\<close>

fun tally_step :: "(string \<times> nat) list \<Rightarrow> string \<Rightarrow> (string \<times> nat) list" where
  "tally_step [] pred = [(pred, 1)]"
| "tally_step ((k, v) # d) pred =
     (if k = pred then (k, v + 1) # d else (k, v) # tally_step d pred)"

fun smooth_loop ::
  "(string \<times> nat) list \<Rightarrow> scalar \<Rightarrow> (string \<times> scalar) list \<Rightarrow> (string \<times> nat) list \<times> scalar" where
  "smooth_loop prediction_counts total_confidence [] = (prediction_counts, total_confidence)"
| "smooth_loop prediction_counts total_confidence ((pred, conf) # rest) =
     smooth_loop (tally_step prediction_counts pred) (fadd total_confidence conf) rest"

text \<open>
  \<open>max(prediction_counts, key=prediction_counts.get)\<close> scans the keys in dictionary
  order and replaces the best key only when the count is strictly greater; on an empty
  dictionary it raises \<open>ValueError\<close>.
\<close>

fun max_scan :: "string \<times> nat \<Rightarrow> (string \<times> nat) list \<Rightarrow> string" where
  "max_scan (bk, bv) [] = bk"
| "max_scan (bk, bv) ((k, v) # d) =
     (if bv < v then max_scan (k, v) d else max_scan (bk, bv) d)"

definition py_max_key :: "(string \<times> nat) list \<Rightarrow> py_exception + string" where
  "py_max_key d = (case d of [] \<Rightarrow> Inl ValueError | e # rest \<Rightarrow> Inr (max_scan e rest))"

text \<open>
  Python's float division by an integer raises on zero. The confidences are Python
  floats of 64 bits, sums of at most a window of probabilities; their overflow is not
  modelled.
\<close>

definition py_div_len :: "scalar \<Rightarrow> nat \<Rightarrow> py_exception + scalar" where
  "py_div_len a n = (if n = 0 then Inl ZeroDivisionError else Inr (fdiv a (Fin (real n))))"

definition smooth_predictions :: "deque \<Rightarrow> py_exception + (string \<times> scalar)" where
  "smooth_predictions h =
     (if items h = [] then Inr ([], Fin 0)
      else
        (case smooth_loop [] (Fin 0) (items h) of
           (prediction_counts, total_confidence) \<Rightarrow>
             bind_exc (py_max_key prediction_counts) (\<lambda>most_frequent.
             bind_exc (py_div_len total_confidence (length (items h))) (\<lambda>avg_confidence.
               Inr (most_frequent, avg_confidence)))))"

text \<open>
  Lines 75 to 83 of \<open>predict\<close>, the stabiliser's \<open>accept\<close>: push the prediction, smooth,
  store and return the smoothed pair. The state is returned also when smoothing raises,
  as the append has happened by then.
\<close>

definition accept ::
  "translator \<Rightarrow> string \<Rightarrow> scalar \<Rightarrow> translator \<times> (py_exception + (string \<times> scalar))" where
  "accept t predicted_sign confidence =
     (let t1 = t\<lparr>prediction_history :=
                   deque_append (prediction_history t) (predicted_sign, confidence)\<rparr>
      in case smooth_predictions (prediction_history t1) of
           Inl e \<Rightarrow> (t1, Inl e)
         | Inr (smoothed_prediction, smoothed_confidence) \<Rightarrow>
             (t1\<lparr>current_prediction := smoothed_prediction,
                 current_confidence := smoothed_confidence\<rparr>,
              Inr (smoothed_prediction, smoothed_confidence)))"

text \<open>
  \<open>np.argmax\<close>: the index of the first maximum, a NaN counting as the maximum;
  \<open>ValueError\<close> on an empty row.
\<close>

fun argmax_scan :: "nat \<Rightarrow> scalar \<Rightarrow> nat \<Rightarrow> scalar list \<Rightarrow> nat" where
  "argmax_scan bi bv i [] = bi"
| "argmax_scan bi bv i (x # xs) =
     (if is_nan bv then bi
      else if is_nan x \<or> fgt x bv then argmax_scan i x (Suc i) xs
      else argmax_scan bi bv (Suc i) xs)"

definition np_argmax :: "scalar list \<Rightarrow> py_exception + nat" where
  "np_argmax a = (case a of [] \<Rightarrow> Inl ValueError | x # xs \<Rightarrow> Inr (argmax_scan 0 x 1 xs))"

definition list_get :: "'a list \<Rightarrow> nat \<Rightarrow> py_exception + 'a" where
  "list_get xs i = (if i < length xs then Inr (xs ! i) else Inl IndexError)"

text \<open>
  Lines 61 to 72 of \<open>predict\<close>: the classification and the threshold gate, which read
  the translator but do not change it. The result is the exception raised, or \<open>None\<close>
  when the confidence is not above the threshold, or the candidate prediction.
  \<open>reshape(1, -1)\<close> only wraps the array into one row and cannot fail on an array, so
  the classifier is applied to the landmarks as they are.
\<close>

definition classify ::
  "config \<Rightarrow> classifier \<Rightarrow> scalar list \<Rightarrow> py_exception + (string \<times> scalar) option" where
  "classify cfg m landmarks_input =
     bind_exc (m landmarks_input) (\<lambda>predictions.
     bind_exc (np_argmax predictions) (\<lambda>predicted_class_idx.
     bind_exc (list_get predictions predicted_class_idx) (\<lambda>confidence.
       if fgt confidence (GESTURE_THRESHOLD cfg) then
         bind_exc (list_get (ASL_CLASSES cfg) predicted_class_idx) (\<lambda>predicted_sign.
           Inr (Some (predicted_sign, confidence)))
       else Inr None)))"

text \<open>
  The body of the \<open>try\<close> block of \<open>predict\<close>. It returns the translator as the block
  leaves it, and either the exception raised, or \<open>Some\<close> of the pair returned from
  inside the block, or \<open>None\<close> when the block falls through (confidence not above the
  threshold).
\<close>

definition predict_try ::
  "config \<Rightarrow> translator \<Rightarrow> classifier \<Rightarrow> scalar list
     \<Rightarrow> translator \<times> (py_exception + (string \<times> scalar) option)" where
  "predict_try cfg t m landmarks_input =
     (case classify cfg m landmarks_input of
        Inl e \<Rightarrow> (t, Inl e)
      | Inr None \<Rightarrow> (t, Inr None)
      | Inr (Some (predicted_sign, confidence)) \<Rightarrow>
          (case accept t predicted_sign confidence of
             (t', Inl e) \<Rightarrow> (t', Inl e)
           | (t', Inr r) \<Rightarrow> (t', Inr (Some r))))"

text \<open>
  \<open>predict\<close>: the guard on a missing model or missing landmarks, the \<open>try\<close> block,
  and the handler. \<open>except Exception\<close> catches the subclasses of \<open>Exception\<close> only:
  any other exception leaves \<open>predict\<close>. The handler prints, which the console may
  refuse with an exception of its own (\<open>print_raises\<close>); that exception leaves
  \<open>predict\<close> too. Otherwise the handler falls through to \<open>return None, 0.0\<close>. The
  result is the translator after the call, and either the returned pair or the exception
  that reaches the caller.
\<close>

definition predict ::
  "config \<Rightarrow> py_exception option \<Rightarrow> translator \<Rightarrow> scalar list option
     \<Rightarrow> translator \<times> (py_exception + (string option \<times> scalar))" where
  "predict cfg print_raises t landmarks =
     (case (model t, landmarks) of
        (Some m, Some a) \<Rightarrow>
          (case predict_try cfg t m a of
             (t', Inr (Some (smoothed_prediction, smoothed_confidence))) \<Rightarrow>
               (t', Inr (Some smoothed_prediction, smoothed_confidence))
           | (t', Inr None) \<Rightarrow> (t', Inr (None, Fin 0))
           | (t', Inl e) \<Rightarrow>
               if is_Exception e then
                 (case print_raises of
                    None \<Rightarrow> (t', Inr (None, Fin 0))
                  | Some e' \<Rightarrow> (t', Inl e'))
               else (t', Inl e))
      | _ \<Rightarrow> (t, Inr (None, Fin 0)))"

definition reset :: "translator \<Rightarrow> translator" where
  "reset t =
     t\<lparr>prediction_history := deque_clear (prediction_history t),
       current_prediction := [],
       current_confidence := Fin 0\<rparr>"

definition get_current_prediction :: "translator \<Rightarrow> string \<times> scalar" where
  "get_current_prediction t = (current_prediction t, current_confidence t)"

section \<open>Example classifiers\<close>

text \<open>
  Two classifiers for concrete runs: one that raises the given exception on every input,
  and one that returns the given row of probabilities on every input.
\<close>

definition raising_classifier :: "py_exception \<Rightarrow> classifier" where
  "raising_classifier e a = Inl e"

definition constant_classifier :: "scalar list \<Rightarrow> classifier" where
  "constant_classifier ps a = Inr ps"

section \<open>Sequences of stabiliser operations\<close>

text \<open>
  A run of the stabiliser: a list of \<open>accept\<close> and \<open>reset\<close> operations applied in
  order to a translator.
\<close>

datatype stabilizer_op = Accept string scalar | Reset

fun apply_op :: "translator \<Rightarrow> stabilizer_op \<Rightarrow> translator" where
  "apply_op t (Accept l c) = fst (accept t l c)"
| "apply_op t Reset = reset t"

definition run_ops :: "translator \<Rightarrow> stabilizer_op list \<Rightarrow> translator" where
  "run_ops t ops = foldl apply_op t ops"

text \<open>A prediction with a finite confidence, as an operation and as a window entry.\<close>

definition accept_op :: "string \<times> real \<Rightarrow> stabilizer_op" where
  "accept_op p = Accept (fst p) (Fin (snd p))"

definition entry :: "string \<times> real \<Rightarrow> string \<times> scalar" where
  "entry p = (fst p, Fin (snd p))"

section \<open>The words of the specification\<close>

text \<open>The arithmetic mean of a list of numbers.\<close>

definition mean :: "real list \<Rightarrow> real" where
  "mean xs = sum_list xs / real (length xs)"

text \<open>The position at which a label first appears in a list.\<close>

definition first_index :: "'a list \<Rightarrow> 'a \<Rightarrow> nat" where
  "first_index xs x = length (takeWhile (\<lambda>y. y \<noteq> x) xs)"

text \<open>
  Normalisation as the specification words it, on exact numbers: translate every keypoint
  by the wrist, take minimum and range of the translated x and of the translated y, clamp
  each range to at least 1, rescale x and y, leave z translated, and flatten.
\<close>

definition translate_spec :: "real list \<Rightarrow> (real \<times> real \<times> real) list" where
  "translate_spec p = map (\<lambda>(x, y, z). (x - p ! 0, y - p ! 1, z - p ! 2)) (rows3 p)"

definition x_min_spec :: "real list \<Rightarrow> real" where
  "x_min_spec p = Min (set (col_x (translate_spec p)))"

definition x_range_spec :: "real list \<Rightarrow> real" where
  "x_range_spec p = max (Max (set (col_x (translate_spec p))) - x_min_spec p) 1"

definition y_min_spec :: "real list \<Rightarrow> real" where
  "y_min_spec p = Min (set (col_y (translate_spec p)))"

definition y_range_spec :: "real list \<Rightarrow> real" where
  "y_range_spec p = max (Max (set (col_y (translate_spec p))) - y_min_spec p) 1"

definition normalize_spec :: "real list \<Rightarrow> real list" where
  "normalize_spec p =
     flatten (map (\<lambda>(x, y, z).
        ((x - x_min_spec p) / x_range_spec p * 2 - 1,
         (y - y_min_spec p) / y_range_spec p * 2 - 1,
         z)) (translate_spec p))"

section \<open>Poses within and beyond the float32 range\<close>

text \<open>
  A translated pose fits when its x and y are at most half the largest finite
  \<open>float32\<close> number in magnitude and its z at most that number: then no subtraction of
  the normalisation overflows.
\<close>

definition fits32 :: "(real \<times> real \<times> real) list \<Rightarrow> bool" where
  "fits32 t \<longleftrightarrow>
     (\<forall>r\<in>set t. \<bar>fst r\<bar> \<le> float_max / 2 \<and> \<bar>fst (snd r)\<bar> \<le> float_max / 2
                 \<and> \<bar>snd (snd r)\<bar> \<le> float_max)"

text \<open>
  Three poses of finite \<open>float32\<close> numbers in which the keypoints 0 and 1 are
  \<open>6e38\<close> apart in x, in y and in z respectively (the largest finite \<open>float32\<close>
  number is about \<open>3.4e38\<close>), all other coordinates being 0.
\<close>

definition far :: real where
  "far = 3 * 10 ^ 38"

definition pose_far_x :: "real list" where
  "pose_far_x = [- far, 0, 0, far, 0, 0] @ replicate 57 0"

definition pose_far_y :: "real list" where
  "pose_far_y = [0, - far, 0, 0, far, 0] @ replicate 57 0"

definition pose_far_z :: "real list" where
  "pose_far_z = [0, 0, - far, 0, 0, far] @ replicate 57 0"

section \<open>The invariant of the tally\<close>

text \<open>
  What the tally dictionary holds after the labels \<open>ls\<close> have been counted: one key for
  each label seen, with its number of occurrences, the keys in the order in which the
  labels first appeared.
\<close>

definition tally_inv :: "string list \<Rightarrow> (string \<times> nat) list \<Rightarrow> bool" where
  "tally_inv ls d \<longleftrightarrow>
     distinct (map fst d) \<and> set (map fst d) = set ls
     \<and> (\<forall>k v. (k, v) \<in> set d \<longrightarrow> v = count_list ls k)
     \<and> sorted_wrt (\<lambda>a b. first_index ls a < first_index ls b) (map fst d)"

section \<open>Properties of the stabiliser\<close>

subsection \<open>Smoothing and accept always return\<close>

lemma tally_step_nonempty: "tally_step d p \<noteq> []"
  by (cases d) (auto split: if_splits)

lemma smooth_loop_counts_nonempty:
  "d \<noteq> [] \<or> w \<noteq> [] \<Longrightarrow> fst (smooth_loop d tot w) \<noteq> []"
  by (induction d tot w rule: smooth_loop.induct) (auto simp: tally_step_nonempty)

lemma smooth_predictions_returns: "\<exists>lab conf. smooth_predictions h = Inr (lab, conf)"
proof (cases "items h = []")
  case True
  then show ?thesis by (simp add: smooth_predictions_def)
next
  case False
  obtain d tot where sl: "smooth_loop [] (Fin 0) (items h) = (d, tot)"
    by (cases "smooth_loop [] (Fin 0) (items h)")
  with False smooth_loop_counts_nonempty[of "[]" "items h" "Fin 0"] have "d \<noteq> []" by simp
  then obtain e rest where "d = e # rest" by (cases d) auto
  with False sl show ?thesis
    by (simp add: smooth_predictions_def py_max_key_def py_div_len_def bind_exc_def)
qed

lemma accept_returns: "\<exists>t' lab conf. accept t l c = (t', Inr (lab, conf))"
proof -
  let ?t1 = "t\<lparr>prediction_history := deque_append (prediction_history t) (l, c)\<rparr>"
  obtain lab conf where "smooth_predictions (prediction_history ?t1) = Inr (lab, conf)"
    using smooth_predictions_returns by blast
  then show ?thesis by (simp add: accept_def Let_def)
qed

lemma accept_history:
  "prediction_history (fst (accept t l c)) = deque_append (prediction_history t) (l, c)"
proof -
  let ?t1 = "t\<lparr>prediction_history := deque_append (prediction_history t) (l, c)\<rparr>"
  obtain lab conf where "smooth_predictions (prediction_history ?t1) = Inr (lab, conf)"
    using smooth_predictions_returns by blast
  then show ?thesis by (simp add: accept_def Let_def)
qed

subsection \<open>Reset\<close>

text \<open>
  C7: whatever the state before, after \<open>reset\<close> the current prediction is the empty
  string with confidence 0.0 and the history is empty, and a second \<open>reset\<close> changes
  nothing. \<open>reset\<close> has no failing branch: it clears the deque and assigns two fields,
  so the model is a total function.
\<close>

theorem reset_clears_and_is_idempotent:
  "get_current_prediction (reset t) = ('''', Fin 0)
   \<and> items (prediction_history (reset t)) = []
   \<and> reset (reset t) = reset t"
  by (simp add: reset_def get_current_prediction_def deque_clear_def)

subsection \<open>The window is bounded and first-in first-out\<close>

lemma maxlen_apply_op:
  "maxlen (prediction_history (apply_op t x)) = maxlen (prediction_history t)"
  by (cases x) (simp_all add: accept_history deque_append_def Let_def reset_def deque_clear_def)

lemma maxlen_run_ops:
  "maxlen (prediction_history (run_ops t ops)) = maxlen (prediction_history t)"
  unfolding run_ops_def by (induction ops arbitrary: t) (simp_all add: maxlen_apply_op)

lemma length_deque_append:
  "length (items d) \<le> maxlen d \<Longrightarrow> length (items (deque_append d x)) \<le> maxlen d"
  by (auto simp: deque_append_def Let_def)

lemma length_apply_op:
  "length (items (prediction_history t)) \<le> maxlen (prediction_history t) \<Longrightarrow>
   length (items (prediction_history (apply_op t x))) \<le> maxlen (prediction_history t)"
  by (cases x) (simp_all add: accept_history length_deque_append reset_def deque_clear_def)

lemma length_run_ops:
  "length (items (prediction_history t)) \<le> maxlen (prediction_history t) \<Longrightarrow>
   length (items (prediction_history (run_ops t ops))) \<le> maxlen (prediction_history t)"
  unfolding run_ops_def
proof (induction ops arbitrary: t)
  case Nil
  then show ?case by simp
next
  case (Cons x ops)
  from Cons.prems have "length (items (prediction_history (apply_op t x)))
      \<le> maxlen (prediction_history (apply_op t x))"
    by (simp add: length_apply_op maxlen_apply_op)
  from Cons.IH[OF this] show ?case by (simp add: maxlen_apply_op)
qed

lemma init_default:
  "SignTranslator_init default_config m = Inr t0 \<Longrightarrow>
   prediction_history t0 = \<lparr>maxlen = 5, items = []\<rparr>"
  by (auto simp: SignTranslator_init_def default_config_def deque_new_def bind_exc_def)

text \<open>
  C4: start from a translator constructed with the default configuration (capacity 5)
  and apply any sequence of \<open>accept\<close> and \<open>reset\<close> operations. The window then holds
  at most 5 entries, also after one more \<open>accept\<close>; and when it holds exactly 5, that
  \<open>accept\<close> leaves the old entries without the oldest one, in their order, followed by
  the new entry.
\<close>

theorem window_bounded_fifo:
  assumes "SignTranslator_init default_config m = Inr t0" and "t = run_ops t0 ops"
  shows "length (items (prediction_history t)) \<le> 5 \<and>
         length (items (prediction_history (fst (accept t l c)))) \<le> 5 \<and>
         (length (items (prediction_history t)) = 5 \<longrightarrow>
            items (prediction_history (fst (accept t l c)))
              = tl (items (prediction_history t)) @ [(l, c)])"
proof -
  have h0: "prediction_history t0 = \<lparr>maxlen = 5, items = []\<rparr>"
    using assms(1) by (rule init_default)
  have ml: "maxlen (prediction_history t) = 5"
    using assms(2) h0 by (simp add: maxlen_run_ops)
  have len: "length (items (prediction_history t)) \<le> 5"
    using length_run_ops[of t0 ops] assms(2) h0 by simp
  have len': "length (items (prediction_history (fst (accept t l c)))) \<le> 5"
    using length_deque_append[of "prediction_history t" "(l, c)"] len ml
    by (simp add: accept_history)
  have "length (items (prediction_history t)) = 5 \<Longrightarrow>
        items (prediction_history (fst (accept t l c)))
              = tl (items (prediction_history t)) @ [(l, c)]"
    using ml by (cases "items (prediction_history t)")
      (auto simp add: accept_history deque_append_def Let_def)
  with len len' show ?thesis by blast
qed

theorem window_bounded_fifo_witness:
  "SignTranslator_init default_config None
     = Inr \<lparr>model = None, prediction_history = \<lparr>maxlen = 5, items = []\<rparr>,
            current_prediction = '''', current_confidence = Fin 0\<rparr>
   \<and> items (prediction_history (run_ops
        \<lparr>model = None, prediction_history = \<lparr>maxlen = 5, items = []\<rparr>,
         current_prediction = '''', current_confidence = Fin 0\<rparr>
        [Accept ''A'' (Fin (9 / 10)), Accept ''A'' (Fin (8 / 10)), Accept ''B'' (Fin (95 / 100)),
         Accept ''A'' (Fin (85 / 100)), Accept ''B'' (Fin (7 / 10))]))
     = [(''A'', Fin (9 / 10)), (''A'', Fin (8 / 10)), (''B'', Fin (95 / 100)),
        (''A'', Fin (85 / 100)), (''B'', Fin (7 / 10))]
   \<and> items (prediction_history (fst (accept (run_ops
        \<lparr>model = None, prediction_history = \<lparr>maxlen = 5, items = []\<rparr>,
         current_prediction = '''', current_confidence = Fin 0\<rparr>
        [Accept ''A'' (Fin (9 / 10)), Accept ''A'' (Fin (8 / 10)), Accept ''B'' (Fin (95 / 100)),
         Accept ''A'' (Fin (85 / 100)), Accept ''B'' (Fin (7 / 10))]) ''B'' (Fin (99 / 100)))))
     = [(''A'', Fin (8 / 10)), (''B'', Fin (95 / 100)),
        (''A'', Fin (85 / 100)), (''B'', Fin (7 / 10)), (''B'', Fin (99 / 100))]"
proof -
  let ?t0 = "\<lparr>model = None, prediction_history = \<lparr>maxlen = 5, items = []\<rparr>,
         current_prediction = '''', current_confidence = Fin 0\<rparr>"
  let ?ops = "[Accept ''A'' (Fin (9 / 10)), Accept ''A'' (Fin (8 / 10)), Accept ''B'' (Fin (95 / 100)),
         Accept ''A'' (Fin (85 / 100)), Accept ''B'' (Fin (7 / 10))]"
  have i: "SignTranslator_init default_config None = Inr ?t0"
    by (simp add: SignTranslator_init_def default_config_def deque_new_def bind_exc_def)
  have w: "items (prediction_history (run_ops ?t0 ?ops))
     = [(''A'', Fin (9 / 10)), (''A'', Fin (8 / 10)), (''B'', Fin (95 / 100)),
        (''A'', Fin (85 / 100)), (''B'', Fin (7 / 10))]"
    by (simp add: run_ops_def accept_history deque_append_def Let_def)
  from window_bounded_fifo[OF i refl, of ?ops "''B''" "Fin (99 / 100)"] w i
  show ?thesis by simp
qed

subsection \<open>The stabilised confidence\<close>

lemma smooth_loop_total: "snd (smooth_loop d tot w) = foldl fadd tot (map snd w)"
  by (induction d tot w rule: smooth_loop.induct) simp_all

lemma smooth_loop_counts: "fst (smooth_loop d tot w) = foldl tally_step d (map fst w)"
  by (induction d tot w rule: smooth_loop.induct) simp_all

lemma foldl_fadd_entries:
  "foldl fadd (Fin a) (map (snd \<circ> entry) ps) = Fin (a + sum_list (map snd ps))"
  by (induction ps arbitrary: a) (simp_all add: entry_def add.assoc)

lemma drop_window_step:
  assumes "length w0 \<le> n"
  shows "drop (length (drop (length (w0 @ [p]) - n) (w0 @ [p]) @ ps) - n)
              (drop (length (w0 @ [p]) - n) (w0 @ [p]) @ ps)
           = drop (length (w0 @ p # ps) - n) (w0 @ p # ps)"
proof -
  define k where "k = length (w0 @ [p]) - n"
  define xs where "xs = w0 @ [p]"
  have k: "k \<le> length xs" "k = 0 \<or> length xs = n + k"
    using assms by (auto simp: k_def xs_def)
  have a: "drop k xs @ ps = drop k (xs @ ps)" using k(1) by simp
  have l: "length (drop k (xs @ ps)) - n + k = length (xs @ ps) - n"
    using k by (auto simp del: drop_append)
  have "drop (length (drop k xs @ ps) - n) (drop k xs @ ps)
          = drop (length (drop k (xs @ ps)) - n + k) (xs @ ps)"
    by (simp only: a drop_drop)
  also have "\<dots> = drop (length (xs @ ps) - n) (xs @ ps)"
    by (simp only: l)
  finally show ?thesis
    by (simp only: k_def xs_def append_assoc append.simps)
qed

lemma smooth_predictions_mean:
  assumes "items h = map entry w" and "w \<noteq> []"
  shows "\<exists>lab. smooth_predictions h = Inr (lab, Fin (mean (map snd w)))"
proof -
  obtain lab conf where r: "smooth_predictions h = Inr (lab, conf)"
    using smooth_predictions_returns by blast
  obtain d tot where sl: "smooth_loop [] (Fin 0) (items h) = (d, tot)"
    by (cases "smooth_loop [] (Fin 0) (items h)")
  have tot: "tot = Fin (sum_list (map snd w))"
    using smooth_loop_total[of "[]" "Fin 0" "items h"] sl assms(1)
    by (simp add: foldl_fadd_entries)
  have ne: "items h \<noteq> []" using assms by simp
  have "conf = Fin (mean (map snd w))"
    using r sl ne tot assms
    by (auto simp: smooth_predictions_def bind_exc_def py_div_len_def mean_def
             split: sum.splits)
  with r show ?thesis by simp
qed

lemma deque_append_entries:
  assumes "items d = map entry w0" and "length w0 \<le> maxlen d"
  shows "items (deque_append d (entry p))
           = map entry (drop (length (w0 @ [p]) - maxlen d) (w0 @ [p]))"
proof (cases "length w0 < maxlen d")
  case True
  then show ?thesis using assms by (simp add: deque_append_def Let_def)
next
  case False
  with assms(2) have eq: "length w0 = maxlen d" by simp
  then have "length (w0 @ [p]) - maxlen d = Suc 0" by simp
  then have "drop (length (w0 @ [p]) - maxlen d) (w0 @ [p]) = tl (w0 @ [p])"
    by (simp only: drop_Suc drop_0)
  moreover have "items (deque_append d (entry p)) = map entry (tl (w0 @ [p]))"
    using assms(1) eq by (cases w0) (simp_all add: deque_append_def Let_def)
  ultimately show ?thesis by simp
qed

lemma run_accepts_window:
  assumes "items (prediction_history t) = map entry w0"
      and "length w0 \<le> maxlen (prediction_history t)"
  shows "items (prediction_history (run_ops t (map accept_op ps)))
           = map entry (drop (length (w0 @ ps) - maxlen (prediction_history t)) (w0 @ ps))"
  using assms
proof (induction ps arbitrary: t w0)
  case Nil
  then show ?case by (simp add: run_ops_def)
next
  case (Cons p ps)
  let ?n = "maxlen (prediction_history t)"
  let ?t1 = "apply_op t (accept_op p)"
  let ?w1 = "drop (length (w0 @ [p]) - ?n) (w0 @ [p])"
  have h1: "prediction_history ?t1 = deque_append (prediction_history t) (entry p)"
    by (simp add: accept_op_def entry_def accept_history)
  have i1: "items (prediction_history ?t1) = map entry ?w1"
    using deque_append_entries[OF Cons.prems] h1 by simp
  have m1: "maxlen (prediction_history ?t1) = ?n" by (simp add: maxlen_apply_op)
  have l1: "length ?w1 \<le> maxlen (prediction_history ?t1)"
    using Cons.prems(2) m1 by simp
  have "items (prediction_history (run_ops ?t1 (map accept_op ps)))
          = map entry (drop (length (w0 @ p # ps) - ?n) (w0 @ p # ps))"
    using Cons.IH[OF i1 l1] unfolding m1 drop_window_step[OF Cons.prems(2)] .
  moreover have "run_ops t (map accept_op (p # ps)) = run_ops ?t1 (map accept_op ps)"
    by (simp add: run_ops_def)
  ultimately show ?case by (simp only:)
qed

text \<open>
  C3: construct a translator with the default configuration (capacity 5) and accept any
  sequence \<open>ps\<close> of predictions and then \<open>(l, c)\<close>. The window then holds the last
  five (or fewer) of the accepted predictions, and the confidence that this \<open>accept\<close>
  returns and stores is the arithmetic mean of the confidences of all entries of the
  window, whatever their labels.
\<close>

theorem accept_confidence_is_window_mean:
  assumes "SignTranslator_init default_config m = Inr t0"
      and "w = drop (length (ps @ [(l, c)]) - 5) (ps @ [(l, c)])"
  shows "\<exists>t' lab. accept (run_ops t0 (map accept_op ps)) l (Fin c)
                     = (t', Inr (lab, Fin (mean (map snd w))))
           \<and> items (prediction_history t') = map entry w
           \<and> get_current_prediction t' = (lab, Fin (mean (map snd w)))"
proof -
  let ?t = "run_ops t0 (map accept_op ps)"
  have h0: "prediction_history t0 = \<lparr>maxlen = 5, items = []\<rparr>"
    using assms(1) by (rule init_default)
  have run: "items (prediction_history (run_ops t0 (map accept_op (ps @ [(l, c)])))) = map entry w"
    using run_accepts_window[of t0 "[]" "ps @ [(l, c)]"] h0 assms(2) by simp
  have step: "run_ops t0 (map accept_op (ps @ [(l, c)])) = fst (accept ?t l (Fin c))"
    by (simp add: run_ops_def accept_op_def)
  let ?h' = "deque_append (prediction_history ?t) (l, Fin c)"
  have items': "items ?h' = map entry w"
    using run step by (simp add: accept_history)
  have "w \<noteq> []" using assms(2) by simp
  from smooth_predictions_mean[OF items' this]
  obtain lab where sp: "smooth_predictions ?h' = Inr (lab, Fin (mean (map snd w)))" by blast
  show ?thesis
    using sp items' by (simp add: accept_def Let_def get_current_prediction_def)
qed

theorem accept_confidence_is_window_mean_witness:
  "SignTranslator_init default_config None
     = Inr \<lparr>model = None, prediction_history = \<lparr>maxlen = 5, items = []\<rparr>,
            current_prediction = '''', current_confidence = Fin 0\<rparr>
   \<and> mean (map snd (drop (length ([(''A'', 9 / 10), (''A'', 8 / 10), (''B'', 95 / 100), (''A'', 85 / 100)] @ [(''B'', 7 / 10)]) - 5)
        ([(''A'', 9 / 10), (''A'', 8 / 10), (''B'', 95 / 100), (''A'', 85 / 100)] @ [(''B'', 7 / 10 :: real)])))
      = 84 / 100
   \<and> snd (accept (run_ops
        \<lparr>model = None, prediction_history = \<lparr>maxlen = 5, items = []\<rparr>,
         current_prediction = '''', current_confidence = Fin 0\<rparr>
        (map accept_op [(''A'', 9 / 10), (''A'', 8 / 10), (''B'', 95 / 100), (''A'', 85 / 100)]))
        ''B'' (Fin (7 / 10)))
     = Inr (''A'', Fin (84 / 100))"
proof -
  let ?t0 = "\<lparr>model = None, prediction_history = \<lparr>maxlen = 5, items = []\<rparr>,
         current_prediction = '''', current_confidence = Fin 0\<rparr>"
  have i: "SignTranslator_init default_config None = Inr ?t0"
    by (simp add: SignTranslator_init_def default_config_def deque_new_def bind_exc_def)
  have e: "snd (accept (run_ops ?t0
        (map accept_op [(''A'', 9 / 10), (''A'', 8 / 10), (''B'', 95 / 100), (''A'', 85 / 100)]))
        ''B'' (Fin (7 / 10)))
     = Inr (''A'', Fin (84 / 100))"
    by (simp add: run_ops_def accept_op_def accept_def deque_append_def Let_def
          smooth_predictions_def py_max_key_def py_div_len_def bind_exc_def)
  from accept_confidence_is_window_mean[OF i refl,
      of "[(''A'', 9 / 10), (''A'', 8 / 10), (''B'', 95 / 100), (''A'', 85 / 100)]" "''B''" "7 / 10"]
    i e
  show ?thesis by (simp add: mean_def)
qed

subsection \<open>The stabilised label\<close>

lemma first_index_snoc_old: "a \<in> set ls \<Longrightarrow> first_index (ls @ [x]) a = first_index ls a"
  unfolding first_index_def by (induction ls) auto

lemma first_index_snoc_new: "x \<notin> set ls \<Longrightarrow> first_index (ls @ [x]) x = length ls"
  unfolding first_index_def by (induction ls) auto

lemma first_index_less: "a \<in> set ls \<Longrightarrow> first_index ls a < length ls"
  unfolding first_index_def by (induction ls) auto

lemma tally_step_keys:
  "map fst (tally_step d x) = (if x \<in> fst ` set d then map fst d else map fst d @ [x])"
  by (induction d x rule: tally_step.induct) auto

lemma tally_step_old:
  "x \<in> fst ` set d \<Longrightarrow> distinct (map fst d) \<Longrightarrow>
   (k, v) \<in> set (tally_step d x) \<longleftrightarrow>
     (if k = x then \<exists>v0. (k, v0) \<in> set d \<and> v = v0 + 1 else (k, v) \<in> set d)"
  by (induction d x rule: tally_step.induct) (auto simp: rev_image_eqI)

lemma tally_step_new:
  "x \<notin> fst ` set d \<Longrightarrow> set (tally_step d x) = insert (x, 1) (set d)"
  by (induction d x rule: tally_step.induct) auto

lemma tally_inv_step:
  assumes "tally_inv ls d"
  shows "tally_inv (ls @ [x]) (tally_step d x)"
proof (cases "x \<in> set ls")
  case True
  with assms have xin: "x \<in> fst ` set d" by (simp add: tally_inv_def)
  have keys: "map fst (tally_step d x) = map fst d"
    using xin by (simp add: tally_step_keys)
  have dist: "distinct (map fst d)" using assms by (simp add: tally_inv_def)
  have cnt: "\<And>k v. (k, v) \<in> set (tally_step d x) \<Longrightarrow> v = count_list (ls @ [x]) k"
    using assms by (auto simp: tally_step_old[OF xin dist] tally_inv_def split: if_splits)
  have "sorted_wrt (\<lambda>a b. first_index ls a < first_index ls b) (map fst d)"
    using assms by (simp add: tally_inv_def)
  then have "sorted_wrt (\<lambda>a b. first_index (ls @ [x]) a < first_index (ls @ [x]) b) (map fst d)"
    using assms
    by (rule_tac sorted_wrt_mono_rel[rotated]) (auto simp: tally_inv_def first_index_snoc_old)
  with keys dist cnt assms True show ?thesis
    by (auto simp: tally_inv_def)
next
  case False
  with assms have xout: "x \<notin> fst ` set d" by (simp add: tally_inv_def)
  have keys: "map fst (tally_step d x) = map fst d @ [x]"
    using xout by (simp add: tally_step_keys)
  have cnt: "\<And>k v. (k, v) \<in> set (tally_step d x) \<Longrightarrow> v = count_list (ls @ [x]) k"
    using assms False xout
    by (auto simp: tally_step_new[OF xout] tally_inv_def rev_image_eqI)
  have s0: "sorted_wrt (\<lambda>a b. first_index ls a < first_index ls b) (map fst d)"
    using assms by (simp add: tally_inv_def)
  have s1: "sorted_wrt (\<lambda>a b. first_index (ls @ [x]) a < first_index (ls @ [x]) b) (map fst d)"
    using s0 assms
    by (rule_tac sorted_wrt_mono_rel[rotated]) (auto simp: tally_inv_def first_index_snoc_old)
  have s2: "\<And>a. a \<in> set (map fst d) \<Longrightarrow> first_index (ls @ [x]) a < first_index (ls @ [x]) x"
    using assms False
    by (simp add: tally_inv_def first_index_snoc_old first_index_snoc_new first_index_less)
  have "sorted_wrt (\<lambda>a b. first_index (ls @ [x]) a < first_index (ls @ [x]) b) (map fst d @ [x])"
    using s1 s2 by (simp add: sorted_wrt_append)
  with keys cnt assms False xout show ?thesis
    by (auto simp: tally_inv_def)
qed

lemma tally_inv_foldl: "tally_inv ls d \<Longrightarrow> tally_inv (ls @ xs) (foldl tally_step d xs)"
proof (induction xs arbitrary: ls d)
  case Nil
  then show ?case by simp
next
  case (Cons x xs)
  from Cons.IH[OF tally_inv_step[OF Cons.prems, of x]] show ?case by simp
qed

lemma tally_inv_all: "tally_inv ls (foldl tally_step [] ls)"
  using tally_inv_foldl[of "[]" "[]" ls] by (simp add: tally_inv_def)

lemma max_scan_split:
  "\<exists>pre v post. b # d = pre @ (max_scan b d, v) # post
      \<and> (\<forall>k' v'. (k', v') \<in> set pre \<longrightarrow> v' < v)
      \<and> (\<forall>k' v'. (k', v') \<in> set post \<longrightarrow> v' \<le> v)"
proof (induction d arbitrary: b)
  case Nil
  obtain bk bv where b: "b = (bk, bv)" by (cases b)
  have "[b] = [] @ (max_scan b [], bv) # []" using b by simp
  then show ?case by (metis empty_iff empty_set)
next
  case (Cons e d)
  obtain bk bv where b: "b = (bk, bv)" by (cases b)
  obtain k v where e: "e = (k, v)" by (cases e)
  show ?case
  proof (cases "bv < v")
    case True
    from Cons.IH[of "(k, v)"] obtain pre v0 post where
      sp: "(k, v) # d = pre @ (max_scan (k, v) d, v0) # post"
      and lo: "\<forall>k' v'. (k', v') \<in> set pre \<longrightarrow> v' < v0"
      and hi: "\<forall>k' v'. (k', v') \<in> set post \<longrightarrow> v' \<le> v0" by blast
    have "v \<le> v0"
    proof (cases pre)
      case Nil
      with sp show ?thesis by simp
    next
      case (Cons p pre')
      with sp have "(k, v) \<in> set pre" by simp
      with lo show ?thesis by fastforce
    qed
    with True have "bv < v0" by simp
    with lo have lo': "\<forall>k' v'. (k', v') \<in> set ((bk, bv) # pre) \<longrightarrow> v' < v0" by auto
    have ms: "max_scan b (e # d) = max_scan (k, v) d" using b e True by simp
    have "b # e # d = ((bk, bv) # pre) @ (max_scan (k, v) d, v0) # post"
      using sp b e by simp
    then have "b # e # d = ((bk, bv) # pre) @ (max_scan b (e # d), v0) # post"
      by (simp only: ms)
    with lo' hi show ?thesis by blast
  next
    case False
    from Cons.IH[of "(bk, bv)"] obtain pre v0 post where
      sp: "(bk, bv) # d = pre @ (max_scan (bk, bv) d, v0) # post"
      and lo: "\<forall>k' v'. (k', v') \<in> set pre \<longrightarrow> v' < v0"
      and hi: "\<forall>k' v'. (k', v') \<in> set post \<longrightarrow> v' \<le> v0" by blast
    have ms: "max_scan b (e # d) = max_scan (bk, bv) d" using b e False by simp
    show ?thesis
    proof (cases pre)
      case Nil
      have "(bk, bv) # d = (max_scan (bk, bv) d, v0) # post"
        using sp unfolding Nil by (simp only: append_Nil)
      then have eq: "max_scan (bk, bv) d = bk" "v0 = bv" "post = d"
        by (metis list.inject prod.inject)+
      have "b # e # d = [] @ (bk, bv) # ((k, v) # d)" using b e by simp
      then have "b # e # d = [] @ (max_scan b (e # d), bv) # ((k, v) # d)"
        by (simp only: ms eq(1))
      moreover have "\<forall>k' v'. (k', v') \<in> set ((k, v) # d) \<longrightarrow> v' \<le> bv"
        using hi eq False by auto
      ultimately show ?thesis by (metis empty_iff empty_set)
    next
      case (Cons p pre')
      have "(bk, bv) # d = p # (pre' @ (max_scan (bk, bv) d, v0) # post)"
        using sp unfolding Cons by (simp only: append_Cons)
      then have p: "p = (bk, bv)" and d: "d = pre' @ (max_scan (bk, bv) d, v0) # post"
        by (metis list.inject)+
      from Cons p lo have "bv < v0" by auto
      with False have "v < v0" by simp
      with lo Cons p have lo': "\<forall>k' v'. (k', v') \<in> set ((bk, bv) # (k, v) # pre') \<longrightarrow> v' < v0"
        by auto
      have "b # e # d = ((bk, bv) # (k, v) # pre') @ (max_scan (bk, bv) d, v0) # post"
        using b e d by simp
      then have "b # e # d = ((bk, bv) # (k, v) # pre') @ (max_scan b (e # d), v0) # post"
        by (simp only: ms)
      with lo' hi show ?thesis by blast
    qed
  qed
qed


lemma smooth_predictions_label:
  assumes ne: "items h \<noteq> []"
      and sp: "smooth_predictions h = Inr (lab, conf)"
      and ls: "ls = map fst (items h)"
  shows "lab \<in> set ls
         \<and> (\<forall>l'. count_list ls l' \<le> count_list ls lab)
         \<and> (\<forall>l'. l' \<noteq> lab \<and> count_list ls l' = count_list ls lab
                \<longrightarrow> first_index ls lab < first_index ls l')"
proof -
  define d where "d = foldl tally_step [] ls"
  have inv: "tally_inv ls d" unfolding d_def by (rule tally_inv_all)
  obtain d0 tot where sl: "smooth_loop [] (Fin 0) (items h) = (d0, tot)"
    by (cases "smooth_loop [] (Fin 0) (items h)")
  have d0: "d0 = d"
    using smooth_loop_counts[of "[]" "Fin 0" "items h"] sl by (simp add: d_def ls)
  have "d \<noteq> []"
    using smooth_loop_counts_nonempty[of "[]" "items h" "Fin 0"] ne sl d0 by simp
  then obtain b d' where bd: "d = b # d'" by (cases d) auto
  have lab: "lab = max_scan b d'"
    using sp ne sl d0 bd
    by (auto simp: smooth_predictions_def py_max_key_def py_div_len_def bind_exc_def
             split: if_splits)
  from max_scan_split[of b d'] obtain pre v post where
    split: "d = pre @ (lab, v) # post"
    and lo: "\<forall>k' v'. (k', v') \<in> set pre \<longrightarrow> v' < v"
    and hi: "\<forall>k' v'. (k', v') \<in> set post \<longrightarrow> v' \<le> v"
    unfolding bd lab by blast
  have keys: "set (map fst d) = set ls" and dist: "distinct (map fst d)"
    and cnt: "\<And>k w. (k, w) \<in> set d \<Longrightarrow> w = count_list ls k"
    and srt: "sorted_wrt (\<lambda>a b. first_index ls a < first_index ls b) (map fst d)"
    using inv by (auto simp: tally_inv_def)
  have lab_in: "lab \<in> set ls"
    using keys split by (auto simp: rev_image_eqI)
  have v: "v = count_list ls lab" using cnt[of lab v] split by simp
  have entry_of: "\<And>l'. l' \<in> set ls \<Longrightarrow> (l', count_list ls l') \<in> set d"
  proof -
    fix l' assume "l' \<in> set ls"
    with keys obtain w where "(l', w) \<in> set d" by fastforce
    with cnt[of l' w] show "(l', count_list ls l') \<in> set d" by simp
  qed
  have maxi: "\<forall>l'. count_list ls l' \<le> count_list ls lab"
  proof
    fix l'
    show "count_list ls l' \<le> count_list ls lab"
    proof (cases "l' \<in> set ls")
      case True
      from entry_of[OF True] have "(l', count_list ls l') \<in> set pre
          \<or> (l', count_list ls l') = (lab, v) \<or> (l', count_list ls l') \<in> set post"
        unfolding split by auto
      with lo hi v show ?thesis by (auto simp: less_imp_le)
    next
      case False
      then show ?thesis by (simp add: count_list_0_iff)
    qed
  qed
  have tie: "\<forall>l'. l' \<noteq> lab \<and> count_list ls l' = count_list ls lab
                \<longrightarrow> first_index ls lab < first_index ls l'"
  proof (intro allI impI)
    fix l' assume a: "l' \<noteq> lab \<and> count_list ls l' = count_list ls lab"
    have "count_list ls lab \<noteq> 0" using lab_in by (simp add: count_list_0_iff)
    with a have "l' \<in> set ls" by (metis count_list_0_iff)
    from entry_of[OF this] have "(l', count_list ls l') \<in> set pre
          \<or> (l', count_list ls l') = (lab, v) \<or> (l', count_list ls l') \<in> set post"
      unfolding split by auto
    with lo a v have "(l', count_list ls l') \<in> set post" by auto
    then have "l' \<in> set (map fst post)" by (auto simp: rev_image_eqI)
    moreover have "sorted_wrt (\<lambda>a b. first_index ls a < first_index ls b)
                     (map fst pre @ lab # map fst post)"
      using srt unfolding split by simp
    ultimately show "first_index ls lab < first_index ls l'"
      by (auto simp: sorted_wrt_append)
  qed
  from lab_in maxi tie show ?thesis by blast
qed

text \<open>
  C2: whenever the window is not empty after an \<open>accept\<close>, the label that \<open>accept\<close>
  returns and stores occurs in the window, no label occurs more often, and every other
  label that occurs as often first appears later in the window (entries scanned from the
  oldest to the newest).
\<close>

theorem accept_label_is_first_most_frequent:
  assumes "accept t l c = (t', r)"
      and "labels = map fst (items (prediction_history t'))"
      and "labels \<noteq> []"
  shows "\<exists>lab conf. r = Inr (lab, conf)
           \<and> get_current_prediction t' = (lab, conf)
           \<and> lab \<in> set labels
           \<and> (\<forall>l'. count_list labels l' \<le> count_list labels lab)
           \<and> (\<forall>l'. l' \<noteq> lab \<and> count_list labels l' = count_list labels lab
                  \<longrightarrow> first_index labels lab < first_index labels l')"
proof -
  let ?h = "deque_append (prediction_history t) (l, c)"
  obtain lab conf where sp: "smooth_predictions ?h = Inr (lab, conf)"
    using smooth_predictions_returns by blast
  have t': "t' = t\<lparr>prediction_history := ?h, current_prediction := lab,
                    current_confidence := conf\<rparr>" and r: "r = Inr (lab, conf)"
    using assms(1) sp by (auto simp: accept_def Let_def)
  have h: "prediction_history t' = ?h" using t' by simp
  have ne: "items ?h \<noteq> []" using assms(2,3) h by auto
  from smooth_predictions_label[OF ne sp, of labels] assms(2) h t' r
  show ?thesis by (simp add: get_current_prediction_def)
qed

theorem accept_label_is_first_most_frequent_witness:
  "accept (fst (accept
       \<lparr>model = None, prediction_history = \<lparr>maxlen = 5, items = []\<rparr>,
        current_prediction = '''', current_confidence = Fin 0\<rparr> ''A'' (Fin (9 / 10))))
     ''B'' (Fin (9 / 10))
     = (\<lparr>model = None,
         prediction_history = \<lparr>maxlen = 5, items = [(''A'', Fin (9 / 10)), (''B'', Fin (9 / 10))]\<rparr>,
         current_prediction = ''A'', current_confidence = Fin (9 / 10)\<rparr>,
        Inr (''A'', Fin (9 / 10)))
   \<and> count_list [''A'', ''B''] ''A'' = count_list [''A'', ''B''] ''B''
   \<and> first_index [''A'', ''B''] ''A'' < first_index [''A'', ''B''] ''B''"
proof -
  let ?t0 = "\<lparr>model = None, prediction_history = \<lparr>maxlen = 5, items = []\<rparr>,
        current_prediction = '''', current_confidence = Fin 0\<rparr>"
  let ?t' = "\<lparr>model = None,
         prediction_history = \<lparr>maxlen = 5, items = [(''A'', Fin (9 / 10)), (''B'', Fin (9 / 10))]\<rparr>,
         current_prediction = ''A'', current_confidence = Fin (9 / 10)\<rparr>"
  have a: "accept (fst (accept ?t0 ''A'' (Fin (9 / 10)))) ''B'' (Fin (9 / 10))
             = (?t', Inr (''A'', Fin (9 / 10)))"
    by (simp add: accept_def deque_append_def Let_def
          smooth_predictions_def py_max_key_def py_div_len_def bind_exc_def)
  have b: "[''A'', ''B''] = map fst (items (prediction_history ?t'))" by simp
  have c: "[''A'', ''B''] \<noteq> []" by simp
  from accept_label_is_first_most_frequent[OF a b c] a
  show ?thesis by (simp add: first_index_def)
qed

subsection \<open>Rejected frames and the outcomes of predict\<close>

lemma predict_no_input:
  "landmarks = None \<or> model t = None \<Longrightarrow>
   predict cfg pr t landmarks = (t, Inr (None, Fin 0))"
  by (auto simp: predict_def split: option.splits)

lemma predict_try_raises:
  "classify cfg m a = Inl e \<Longrightarrow> predict_try cfg t m a = (t, Inl e)"
  by (simp add: predict_try_def)

lemma predict_try_below_threshold:
  "classify cfg m a = Inr None \<Longrightarrow> predict_try cfg t m a = (t, Inr None)"
  by (simp add: predict_try_def)

lemma predict_try_accepts:
  assumes "classify cfg m a = Inr (Some (s, c))"
  shows "\<exists>t' lab conf. accept t s c = (t', Inr (lab, conf))
           \<and> predict_try cfg t m a = (t', Inr (Some (lab, conf)))"
proof -
  obtain t' lab conf where "accept t s c = (t', Inr (lab, conf))"
    using accept_returns by blast
  with assms show ?thesis by (simp add: predict_try_def)
qed

lemma predict_try_cases:
  "(\<exists>e. classify cfg m a = Inl e \<and> predict_try cfg t m a = (t, Inl e))
   \<or> (classify cfg m a = Inr None \<and> predict_try cfg t m a = (t, Inr None))
   \<or> (\<exists>s c t' lab conf. classify cfg m a = Inr (Some (s, c))
          \<and> accept t s c = (t', Inr (lab, conf))
          \<and> predict_try cfg t m a = (t', Inr (Some (lab, conf))))"
proof (cases "classify cfg m a")
  case (Inl e)
  then show ?thesis using predict_try_raises by blast
next
  case (Inr r)
  show ?thesis
  proof (cases r)
    case None
    with Inr show ?thesis using predict_try_below_threshold by blast
  next
    case (Some sc)
    obtain s c where "sc = (s, c)" by (cases sc)
    with Inr Some have "classify cfg m a = Inr (Some (s, c))" by simp
    from this predict_try_accepts[OF this, of t] show ?thesis by blast
  qed
qed

lemma predict_try_state:
  "snd (predict_try cfg t m a) = Inl e \<or> snd (predict_try cfg t m a) = Inr None \<Longrightarrow>
   fst (predict_try cfg t m a) = t"
  using predict_try_cases[of cfg m a t] by auto

lemma predict_handled:
  assumes "model t = Some m" and "landmarks = Some a"
      and "snd (predict_try cfg t m a) = Inl e" and "is_Exception e"
  shows "predict cfg None t landmarks = (t, Inr (None, Fin 0))"
    and "predict cfg (Some e') t landmarks = (t, Inl e')"
proof -
  have "fst (predict_try cfg t m a) = t" using assms(3) predict_try_state by blast
  with assms(3) have pt: "predict_try cfg t m a = (t, Inl e)"
    by (metis prod.collapse)
  show "predict cfg None t landmarks = (t, Inr (None, Fin 0))"
    and "predict cfg (Some e') t landmarks = (t, Inl e')"
    using assms(1,2,4) pt by (simp_all add: predict_def)
qed

lemma predict_propagates:
  assumes "model t = Some m" and "landmarks = Some a"
      and "snd (predict_try cfg t m a) = Inl e" and "\<not> is_Exception e"
  shows "predict cfg pr t landmarks = (t, Inl e)"
proof -
  have "fst (predict_try cfg t m a) = t" using assms(3) predict_try_state by blast
  with assms(3) have pt: "predict_try cfg t m a = (t, Inl e)"
    by (metis prod.collapse)
  show ?thesis using assms(1,2,4) pt by (simp add: predict_def)
qed

lemma predict_below_threshold:
  assumes "model t = Some m" and "landmarks = Some a"
      and "snd (predict_try cfg t m a) = Inr None"
  shows "predict cfg pr t landmarks = (t, Inr (None, Fin 0))"
proof -
  have "fst (predict_try cfg t m a) = t" using assms(3) predict_try_state by blast
  with assms(3) have pt: "predict_try cfg t m a = (t, Inr None)"
    by (metis prod.collapse)
  show ?thesis using assms(1,2) pt by (simp add: predict_def)
qed

lemma predict_accepts:
  assumes "model t = Some m" and "landmarks = Some a"
      and "classify cfg m a = Inr (Some (s, c))"
  shows "\<exists>t' lab conf. accept t s c = (t', Inr (lab, conf))
           \<and> predict cfg pr t landmarks = (t', Inr (Some lab, conf))"
proof -
  from predict_try_accepts[OF assms(3), of t] obtain t' lab conf where
    "accept t s c = (t', Inr (lab, conf))"
    "predict_try cfg t m a = (t', Inr (Some (lab, conf)))" by blast
  with assms(1,2) show ?thesis by (simp add: predict_def)
qed

lemma predict_state:
  "fst (predict cfg pr t landmarks) = t
   \<or> (\<exists>lab conf. snd (predict cfg pr t landmarks) = Inr (Some lab, conf))"
proof (cases "landmarks = None \<or> model t = None")
  case True
  then show ?thesis by (simp add: predict_no_input)
next
  case False
  then obtain m a where ma: "model t = Some m" "landmarks = Some a" by auto
  from predict_try_cases[of cfg m a t] show ?thesis
  proof (elim disjE exE conjE)
    fix e assume pt: "predict_try cfg t m a = (t, Inl e)"
    then show ?thesis using ma by (simp add: predict_def split: option.splits)
  next
    assume "predict_try cfg t m a = (t, Inr None)"
    then show ?thesis using ma by (simp add: predict_def)
  next
    fix s c t' lab conf
    assume "predict_try cfg t m a = (t', Inr (Some (lab, conf)))"
    then show ?thesis using ma by (simp add: predict_def)
  qed
qed

lemma classify_raises_source:
  assumes "classify cfg m a = Inl e"
  shows "m a = Inl e \<or> is_Exception e"
proof (cases "m a")
  case (Inl e0)
  with assms show ?thesis by (simp add: classify_def bind_exc_def)
next
  case (Inr predictions)
  with assms have "e = ValueError \<or> e = IndexError"
    by (auto simp: classify_def bind_exc_def np_argmax_def list_get_def
             split: list.splits if_splits)
  then show ?thesis by auto
qed

lemma predict_raises_source:
  assumes "snd (predict cfg pr t landmarks) = Inl e"
  shows "pr = Some e
         \<or> (\<not> is_Exception e
             \<and> (\<exists>m a. model t = Some m \<and> landmarks = Some a \<and> m a = Inl e))"
proof (cases "landmarks = None \<or> model t = None")
  case True
  with assms show ?thesis by (simp add: predict_no_input)
next
  case False
  then obtain m a where ma: "model t = Some m" "landmarks = Some a" by auto
  from predict_try_cases[of cfg m a t] show ?thesis
  proof (elim disjE exE conjE)
    fix e0 assume c: "classify cfg m a = Inl e0" and pt: "predict_try cfg t m a = (t, Inl e0)"
    show ?thesis
    proof (cases "is_Exception e0")
      case True
      with assms ma pt show ?thesis by (simp add: predict_def split: option.splits)
    next
      case False
      with assms ma pt have "e = e0" by (simp add: predict_def)
      with False c classify_raises_source[OF c] ma show ?thesis by blast
    qed
  next
    assume "predict_try cfg t m a = (t, Inr None)"
    with assms ma show ?thesis by (simp add: predict_def)
  next
    fix s c t' lab conf
    assume "predict_try cfg t m a = (t', Inr (Some (lab, conf)))"
    with assms ma show ?thesis by (simp add: predict_def)
  qed
qed

text \<open>
  C6: when \<open>predict\<close> is called without landmarks, or without a model, or the
  classification raises (whatever it raises), or its confidence is not above the
  threshold, the translator (history, current prediction, current confidence) is exactly
  as before. In these cases the call returns \<open>(None, 0.0)\<close>, unless the exception is
  one that the handler does not catch or the handler's print raises, and then the
  exception reaches the caller. More generally, every call of \<open>predict\<close> that returns
  no label, and every call that raises, leaves the translator unchanged.
\<close>

theorem predict_rejected_keeps_state:
  "((landmarks = None \<or> model t = None
      \<or> (\<exists>m a. model t = Some m \<and> landmarks = Some a
             \<and> (classify cfg m a = Inr None \<or> (\<exists>e. classify cfg m a = Inl e))))
     \<longrightarrow> fst (predict cfg pr t landmarks) = t)
   \<and> ((landmarks = None \<or> model t = None
      \<or> (\<exists>m a. model t = Some m \<and> landmarks = Some a
             \<and> (classify cfg m a = Inr None
                \<or> (\<exists>e. classify cfg m a = Inl e \<and> is_Exception e \<and> pr = None))))
     \<longrightarrow> predict cfg pr t landmarks = (t, Inr (None, Fin 0)))
   \<and> (\<forall>t' c. predict cfg pr t landmarks = (t', Inr (None, c)) \<longrightarrow> t' = t)
   \<and> (\<forall>t' e. predict cfg pr t landmarks = (t', Inl e) \<longrightarrow> t' = t)"
proof -
  have st: "\<And>t' c. predict cfg pr t landmarks = (t', Inr (None, c)) \<Longrightarrow> t' = t"
    using predict_state[of cfg pr t landmarks] by auto
  have ex: "\<And>t' e. predict cfg pr t landmarks = (t', Inl e) \<Longrightarrow> t' = t"
    using predict_state[of cfg pr t landmarks] by auto
  have b: "landmarks = None \<or> model t = None
      \<or> (\<exists>m a. model t = Some m \<and> landmarks = Some a
             \<and> (classify cfg m a = Inr None
                \<or> (\<exists>e. classify cfg m a = Inl e \<and> is_Exception e \<and> pr = None)))
     \<Longrightarrow> predict cfg pr t landmarks = (t, Inr (None, Fin 0))"
    by (auto simp: predict_def predict_try_def split: option.splits)
  have a: "landmarks = None \<or> model t = None
      \<or> (\<exists>m a. model t = Some m \<and> landmarks = Some a
             \<and> (classify cfg m a = Inr None \<or> (\<exists>e. classify cfg m a = Inl e)))
     \<Longrightarrow> fst (predict cfg pr t landmarks) = t"
    by (auto simp: predict_def predict_try_def split: option.splits)
  from a b st ex show ?thesis by blast
qed

theorem predict_rejected_keeps_state_witness:
  "classify default_config (constant_classifier [Fin (1 / 2), Fin (1 / 5)]) [Fin 0] = Inr None
   \<and> predict default_config None
       \<lparr>model = Some (constant_classifier [Fin (1 / 2), Fin (1 / 5)]),
        prediction_history = \<lparr>maxlen = 5, items = [(''A'', Fin (9 / 10))]\<rparr>,
        current_prediction = ''A'', current_confidence = Fin (9 / 10)\<rparr> (Some [Fin 0])
     = (\<lparr>model = Some (constant_classifier [Fin (1 / 2), Fin (1 / 5)]),
         prediction_history = \<lparr>maxlen = 5, items = [(''A'', Fin (9 / 10))]\<rparr>,
         current_prediction = ''A'', current_confidence = Fin (9 / 10)\<rparr>,
        Inr (None, Fin 0))"
proof -
  let ?m = "constant_classifier [Fin (1 / 2), Fin (1 / 5)]"
  let ?t = "\<lparr>model = Some ?m,
        prediction_history = \<lparr>maxlen = 5, items = [(''A'', Fin (9 / 10))]\<rparr>,
        current_prediction = ''A'', current_confidence = Fin (9 / 10)\<rparr>"
  have c: "classify default_config ?m [Fin 0] = Inr None"
    by (simp add: classify_def bind_exc_def np_argmax_def list_get_def fgt_def
          default_config_def constant_classifier_def)
  then have "\<exists>m a. model ?t = Some m \<and> Some [Fin 0] = Some a
             \<and> (classify default_config m a = Inr None
                \<or> (\<exists>e. classify default_config m a = Inl e \<and> is_Exception e
                       \<and> (None :: py_exception option) = None))"
    by simp
  with predict_rejected_keeps_state[of "Some [Fin 0]" ?t default_config None] c
  show ?thesis by blast
qed

text \<open>
  C10, as stated, fails: when the classifier raises \<open>KeyboardInterrupt\<close>, which is not
  a subclass of \<open>Exception\<close>, the handler does not catch it and it reaches the caller
  of \<open>predict\<close>.
\<close>

theorem predict_propagates_keyboard_interrupt:
  "predict default_config None
     \<lparr>model = Some (raising_classifier KeyboardInterrupt),
      prediction_history = \<lparr>maxlen = 5, items = [(''A'', Fin (9 / 10))]\<rparr>,
      current_prediction = ''A'', current_confidence = Fin (9 / 10)\<rparr> (Some [Fin 0])
   = (\<lparr>model = Some (raising_classifier KeyboardInterrupt),
       prediction_history = \<lparr>maxlen = 5, items = [(''A'', Fin (9 / 10))]\<rparr>,
       current_prediction = ''A'', current_confidence = Fin (9 / 10)\<rparr>,
      Inl KeyboardInterrupt)"
  by (simp add: predict_def predict_try_def classify_def bind_exc_def raising_classifier_def)

text \<open>
  C10, amended: without landmarks or without a model \<open>predict\<close> returns exactly
  \<open>(None, 0.0)\<close>. With both, an exception raised in the \<open>try\<close> block that is a
  subclass of \<open>Exception\<close> is caught, and \<open>predict\<close> returns exactly \<open>(None, 0.0)\<close>
  when the handler's print succeeds; when the print raises, that exception reaches the
  caller; an exception that is not a subclass of \<open>Exception\<close> reaches the caller. A
  confidence not above the threshold gives \<open>(None, 0.0)\<close>, and an accepted frame gives
  what \<open>accept\<close> returns. In every case but the accepted frame the translator is
  unchanged, so the stabilised output is still what \<open>get_current_prediction\<close> read
  before. \<open>predict\<close> returns normally whenever the classifier raises nothing outside
  \<open>Exception\<close> and the print does not raise.
\<close>

theorem predict_outcomes:
  "(landmarks = None \<or> model t = None
      \<longrightarrow> predict cfg pr t landmarks = (t, Inr (None, Fin 0)))
   \<and> (\<forall>m a. model t = Some m \<and> landmarks = Some a \<longrightarrow>
        (\<forall>e. snd (predict_try cfg t m a) = Inl e \<and> is_Exception e
            \<longrightarrow> predict cfg None t landmarks = (t, Inr (None, Fin 0))
              \<and> (\<forall>e'. predict cfg (Some e') t landmarks = (t, Inl e')))
      \<and> (\<forall>e. snd (predict_try cfg t m a) = Inl e \<and> \<not> is_Exception e
            \<longrightarrow> predict cfg pr t landmarks = (t, Inl e))
      \<and> (snd (predict_try cfg t m a) = Inr None
            \<longrightarrow> predict cfg pr t landmarks = (t, Inr (None, Fin 0)))
      \<and> (\<forall>s c. classify cfg m a = Inr (Some (s, c))
            \<longrightarrow> (\<exists>t' lab conf. accept t s c = (t', Inr (lab, conf))
                   \<and> predict cfg pr t landmarks = (t', Inr (Some lab, conf)))))
   \<and> ((\<forall>lab conf. snd (predict cfg pr t landmarks) \<noteq> Inr (Some lab, conf))
        \<longrightarrow> get_current_prediction (fst (predict cfg pr t landmarks))
              = get_current_prediction t)
   \<and> (pr = None
        \<and> (\<forall>m a e. model t = Some m \<and> landmarks = Some a \<and> m a = Inl e \<longrightarrow> is_Exception e)
      \<longrightarrow> (\<exists>out. snd (predict cfg pr t landmarks) = Inr out))"
proof -
  have a: "landmarks = None \<or> model t = None
      \<longrightarrow> predict cfg pr t landmarks = (t, Inr (None, Fin 0))"
    using predict_no_input by blast
  have b: "\<forall>m a. model t = Some m \<and> landmarks = Some a \<longrightarrow>
        (\<forall>e. snd (predict_try cfg t m a) = Inl e \<and> is_Exception e
            \<longrightarrow> predict cfg None t landmarks = (t, Inr (None, Fin 0))
              \<and> (\<forall>e'. predict cfg (Some e') t landmarks = (t, Inl e')))
      \<and> (\<forall>e. snd (predict_try cfg t m a) = Inl e \<and> \<not> is_Exception e
            \<longrightarrow> predict cfg pr t landmarks = (t, Inl e))
      \<and> (snd (predict_try cfg t m a) = Inr None
            \<longrightarrow> predict cfg pr t landmarks = (t, Inr (None, Fin 0)))
      \<and> (\<forall>s c. classify cfg m a = Inr (Some (s, c))
            \<longrightarrow> (\<exists>t' lab conf. accept t s c = (t', Inr (lab, conf))
                   \<and> predict cfg pr t landmarks = (t', Inr (Some lab, conf))))"
  proof (intro allI impI)
    fix m a assume ma: "model t = Some m \<and> landmarks = Some a"
    then have m: "model t = Some m" and l: "landmarks = Some a" by simp_all
    have b1: "\<forall>e. snd (predict_try cfg t m a) = Inl e \<and> is_Exception e
            \<longrightarrow> predict cfg None t landmarks = (t, Inr (None, Fin 0))
              \<and> (\<forall>e'. predict cfg (Some e') t landmarks = (t, Inl e'))"
    proof (intro allI impI)
      fix e assume h: "snd (predict_try cfg t m a) = Inl e \<and> is_Exception e"
      then have h1: "snd (predict_try cfg t m a) = Inl e" and h2: "is_Exception e"
        by simp_all
      show "predict cfg None t landmarks = (t, Inr (None, Fin 0))
              \<and> (\<forall>e'. predict cfg (Some e') t landmarks = (t, Inl e'))"
        using predict_handled(1)[OF m l h1 h2] predict_handled(2)[OF m l h1 h2] by simp
    qed
    have b2: "\<forall>e. snd (predict_try cfg t m a) = Inl e \<and> \<not> is_Exception e
            \<longrightarrow> predict cfg pr t landmarks = (t, Inl e)"
      using predict_propagates[OF m l] by simp
    have b3: "snd (predict_try cfg t m a) = Inr None
            \<longrightarrow> predict cfg pr t landmarks = (t, Inr (None, Fin 0))"
      using predict_below_threshold[OF m l] by simp
    have b4: "\<forall>s c. classify cfg m a = Inr (Some (s, c))
            \<longrightarrow> (\<exists>t' lab conf. accept t s c = (t', Inr (lab, conf))
                   \<and> predict cfg pr t landmarks = (t', Inr (Some lab, conf)))"
    proof (intro allI impI)
      fix s c assume "classify cfg m a = Inr (Some (s, c))"
      from predict_accepts[OF m l this]
      show "\<exists>t' lab conf. accept t s c = (t', Inr (lab, conf))
                   \<and> predict cfg pr t landmarks = (t', Inr (Some lab, conf))" .
    qed
    from b1 b2 b3 b4
    show "(\<forall>e. snd (predict_try cfg t m a) = Inl e \<and> is_Exception e
            \<longrightarrow> predict cfg None t landmarks = (t, Inr (None, Fin 0))
              \<and> (\<forall>e'. predict cfg (Some e') t landmarks = (t, Inl e')))
      \<and> (\<forall>e. snd (predict_try cfg t m a) = Inl e \<and> \<not> is_Exception e
            \<longrightarrow> predict cfg pr t landmarks = (t, Inl e))
      \<and> (snd (predict_try cfg t m a) = Inr None
            \<longrightarrow> predict cfg pr t landmarks = (t, Inr (None, Fin 0)))
      \<and> (\<forall>s c. classify cfg m a = Inr (Some (s, c))
            \<longrightarrow> (\<exists>t' lab conf. accept t s c = (t', Inr (lab, conf))
                   \<and> predict cfg pr t landmarks = (t', Inr (Some lab, conf))))"
      by (intro conjI)
  qed
  have g: "(\<forall>lab conf. snd (predict cfg pr t landmarks) \<noteq> Inr (Some lab, conf))
        \<longrightarrow> get_current_prediction (fst (predict cfg pr t landmarks))
              = get_current_prediction t"
    using predict_state[of cfg pr t landmarks] by auto
  have r: "pr = None
        \<and> (\<forall>m a e. model t = Some m \<and> landmarks = Some a \<and> m a = Inl e \<longrightarrow> is_Exception e)
      \<longrightarrow> (\<exists>out. snd (predict cfg pr t landmarks) = Inr out)"
  proof (cases "snd (predict cfg pr t landmarks)")
    case (Inr out)
    then show ?thesis by blast
  next
    case (Inl e)
    from predict_raises_source[OF Inl] show ?thesis by blast
  qed
  from a b g r show ?thesis by (intro conjI)
qed

theorem predict_outcomes_witness:
  "snd (predict_try default_config
       \<lparr>model = Some (raising_classifier RuntimeError),
        prediction_history = \<lparr>maxlen = 5, items = [(''A'', Fin (9 / 10))]\<rparr>,
        current_prediction = ''A'', current_confidence = Fin (9 / 10)\<rparr>
       (raising_classifier RuntimeError) [Fin 0]) = Inl RuntimeError
   \<and> is_Exception RuntimeError
   \<and> predict default_config None
       \<lparr>model = Some (raising_classifier RuntimeError),
        prediction_history = \<lparr>maxlen = 5, items = [(''A'', Fin (9 / 10))]\<rparr>,
        current_prediction = ''A'', current_confidence = Fin (9 / 10)\<rparr> (Some [Fin 0])
     = (\<lparr>model = Some (raising_classifier RuntimeError),
         prediction_history = \<lparr>maxlen = 5, items = [(''A'', Fin (9 / 10))]\<rparr>,
         current_prediction = ''A'', current_confidence = Fin (9 / 10)\<rparr>,
        Inr (None, Fin 0))
   \<and> predict default_config (Some OSError)
       \<lparr>model = Some (raising_classifier RuntimeError),
        prediction_history = \<lparr>maxlen = 5, items = [(''A'', Fin (9 / 10))]\<rparr>,
        current_prediction = ''A'', current_confidence = Fin (9 / 10)\<rparr> (Some [Fin 0])
     = (\<lparr>model = Some (raising_classifier RuntimeError),
         prediction_history = \<lparr>maxlen = 5, items = [(''A'', Fin (9 / 10))]\<rparr>,
         current_prediction = ''A'', current_confidence = Fin (9 / 10)\<rparr>,
        Inl OSError)
   \<and> get_current_prediction
       \<lparr>model = Some (raising_classifier RuntimeError),
        prediction_history = \<lparr>maxlen = 5, items = [(''A'', Fin (9 / 10))]\<rparr>,
        current_prediction = ''A'', current_confidence = Fin (9 / 10)\<rparr>
     = (''A'', Fin (9 / 10))"
proof -
  let ?m = "raising_classifier RuntimeError"
  let ?t = "\<lparr>model = Some ?m,
        prediction_history = \<lparr>maxlen = 5, items = [(''A'', Fin (9 / 10))]\<rparr>,
        current_prediction = ''A'', current_confidence = Fin (9 / 10)\<rparr>"
  have e: "snd (predict_try default_config ?t ?m [Fin 0]) = Inl RuntimeError"
    by (simp add: predict_try_def classify_def bind_exc_def raising_classifier_def)
  have i: "is_Exception RuntimeError" by simp
  have m: "model ?t = Some ?m \<and> Some [Fin 0] = Some [Fin 0]" by simp
  note th = predict_outcomes[of "Some [Fin 0]" ?t default_config None,
      THEN conjunct2, THEN conjunct1, rule_format, OF m, THEN conjunct1, rule_format,
      OF conjI[OF e i]]
  from th e i show ?thesis by (simp add: get_current_prediction_def)
qed

subsection \<open>Construction and configuration\<close>




section \<open>Properties of the normaliser\<close>

lemma rows3_map:
  "rows3 (map f p) = map (\<lambda>(x, y, z). (f x, f y, f z)) (rows3 p)"
  by (induction p rule: rows3.induct) simp_all

lemma length_rows3: "length (rows3 p) = length p div 3"
  by (induction p rule: rows3.induct) simp_all

lemma rows3_nth:
  "k < length p div 3 \<Longrightarrow> rows3 p ! k = (p ! (3 * k), p ! (3 * k + 1), p ! (3 * k + 2))"
proof (induction p arbitrary: k rule: rows3.induct)
  case (1 x y z rest)
  show ?case
  proof (cases k)
    case 0
    then show ?thesis by simp
  next
    case (Suc j)
    with "1.prems" have "j < length rest div 3" by simp
    from "1.IH"[OF this] Suc show ?thesis by simp
  qed
qed simp_all

lemma length_flatten: "length (flatten rs) = 3 * length rs"
  by (induction rs) (auto simp: flatten_def)

lemma flatten_nth:
  "k < length rs \<Longrightarrow>
   flatten rs ! (3 * k) = fst (rs ! k)
   \<and> flatten rs ! (3 * k + 1) = fst (snd (rs ! k))
   \<and> flatten rs ! (3 * k + 2) = snd (snd (rs ! k))"
proof (induction rs arbitrary: k)
  case Nil
  then show ?case by simp
next
  case (Cons r rs)
  obtain x y z where r: "r = (x, y, z)" by (cases r)
  show ?case
  proof (cases k)
    case 0
    then show ?thesis by (simp add: flatten_def r)
  next
    case (Suc j)
    with Cons.prems have "j < length rs" by simp
    from Cons.IH[OF this] Suc show ?thesis by (simp add: flatten_def r)
  qed
qed

lemma flatten_map_Fin:
  "flatten (map (\<lambda>(x, y, z). (Fin (f x y z), Fin (g x y z), Fin (h x y z))) rs)
     = map Fin (flatten (map (\<lambda>(x, y, z). (f x y z, g x y z, h x y z)) rs))"
  by (induction rs) (auto simp: flatten_def)

lemma foldl_fmin2_Fin: "foldl fmin2 (Fin a) (map Fin xs) = Fin (fold min xs a)"
  by (induction xs arbitrary: a) (auto simp: fmin2_def min_def)

lemma foldl_fmax2_Fin: "foldl fmax2 (Fin a) (map Fin xs) = Fin (fold max xs a)"
  by (induction xs arbitrary: a) (auto simp: fmax2_def fgt_def max_def)

lemma np_min_Fin: "xs \<noteq> [] \<Longrightarrow> np_min (map Fin xs) = Inr (Fin (Min (set xs)))"
proof (cases xs)
  case Nil
  assume "xs \<noteq> []"
  with Nil show ?thesis by simp
next
  case (Cons a list)
  have "np_min (map Fin xs) = Inr (Fin (fold min list a))"
    unfolding Cons by (simp add: foldl_fmin2_Fin)
  then show ?thesis unfolding Cons by (simp only: Min.set_eq_fold)
qed

lemma np_max_Fin: "xs \<noteq> [] \<Longrightarrow> np_max (map Fin xs) = Inr (Fin (Max (set xs)))"
proof (cases xs)
  case Nil
  assume "xs \<noteq> []"
  with Nil show ?thesis by simp
next
  case (Cons a list)
  have "np_max (map Fin xs) = Inr (Fin (fold max list a))"
    unfolding Cons by (simp add: foldl_fmax2_Fin)
  then show ?thesis unfolding Cons by (simp only: Max.set_eq_fold)
qed

lemma float_max_ge: "2 \<le> float_max"
  by (simp add: float_max_def)

lemma overflow32_Fin: "\<bar>r\<bar> \<le> float_max \<Longrightarrow> overflow32 (Fin r) = Fin r"
  by auto

lemma fsub_Fin: "fsub (Fin a) (Fin b) = Fin (a - b)"
  by (simp add: fsub_def)

lemma arr_sub_Fin: "\<bar>a - b\<bar> \<le> float_max \<Longrightarrow> arr_sub (Fin a) (Fin b) = Fin (a - b)"
  unfolding arr_sub_def fsub_Fin by (rule overflow32_Fin)

lemma arr_mul_Fin: "\<bar>a * b\<bar> \<le> float_max \<Longrightarrow> arr_mul (Fin a) (Fin b) = Fin (a * b)"
  unfolding arr_mul_def fmul.simps by (rule overflow32_Fin)

lemma arr_div_Fin:
  "b \<noteq> 0 \<Longrightarrow> \<bar>a / b\<bar> \<le> float_max \<Longrightarrow> arr_div (Fin a) (Fin b) = Fin (a / b)"
  unfolding arr_div_def by (simp del: overflow32.simps add: overflow32_Fin)

lemma py_max2_Fin: "py_max2 (Fin a) (Fin b) = Fin (max a b)"
  by (simp add: py_max2_def fgt_def max_def)

lemma axis_min_range_Fin:
  assumes "xs \<noteq> []" and "Max (set xs) - Min (set xs) \<le> float_max"
  shows "axis_min_range (map Fin xs)
     = Inr (Fin (Min (set xs)), Fin (max (Max (set xs) - Min (set xs)) 1))"
proof -
  have "Min (set xs) \<le> Max (set xs)" using assms(1) by simp
  with assms(2) have "\<bar>Max (set xs) - Min (set xs)\<bar> \<le> float_max" by simp
  from arr_sub_Fin[OF this] show ?thesis
    unfolding axis_min_range_def np_min_Fin[OF assms(1)] np_max_Fin[OF assms(1)]
    by (simp only: bind_exc_def sum.case py_max2_Fin)
qed

lemma rescale_Fin:
  assumes "m \<le> c" and "c - m \<le> r" and "1 \<le> r" and "r \<le> float_max"
  shows "rescale (Fin m) (Fin r) (Fin c) = Fin ((c - m) / r * 2 - 1)"
proof -
  define q where "q = (c - m) / r"
  have fm: "2 \<le> float_max" by (rule float_max_ge)
  have d: "0 \<le> c - m" using assms(1) by simp
  have s1: "arr_sub (Fin c) (Fin m) = Fin (c - m)"
    using d assms(2,4) by (intro arr_sub_Fin) simp
  have q0: "0 \<le> q" unfolding q_def using d assms(3) by simp
  have q1: "q \<le> 1" unfolding q_def using assms(2,3) by (simp add: divide_le_eq_1)
  have r0: "r \<noteq> 0" using assms(3) by simp
  have qa: "\<bar>(c - m) / r\<bar> \<le> float_max" using q0 q1 fm unfolding q_def by linarith
  have s2: "arr_div (Fin (c - m)) (Fin r) = Fin q"
    unfolding q_def by (rule arr_div_Fin[OF r0 qa])
  have s3: "arr_mul (Fin q) (Fin 2) = Fin (q * 2)"
    using q0 q1 fm by (intro arr_mul_Fin) simp
  have s4: "arr_sub (Fin (q * 2)) (Fin 1) = Fin (q * 2 - 1)"
    using q0 q1 fm by (intro arr_sub_Fin) simp
  show ?thesis unfolding rescale_def s1 s2 s3 s4 by (simp only: q_def)
qed

subsection \<open>The code computes the formula on poses within range\<close>

lemma length_translate_spec: "length (translate_spec p) = length p div 3"
  by (simp add: translate_spec_def length_rows3)

lemma translate_spec_nth:
  "k < length p div 3 \<Longrightarrow>
   translate_spec p ! k = (p ! (3 * k) - p ! 0, p ! (3 * k + 1) - p ! 1, p ! (3 * k + 2) - p ! 2)"
  by (simp add: translate_spec_def length_rows3 rows3_nth)

lemma translate_to_wrist_eq:
  assumes "length p = 63"
  shows "translate_to_wrist (map Fin p)
           = Inr (map (\<lambda>(x, y, z). (arr_sub (Fin x) (Fin (p ! 0)), arr_sub (Fin y) (Fin (p ! 1)),
                                    arr_sub (Fin z) (Fin (p ! 2)))) (rows3 p))"
proof -
  have len: "length (rows3 p) = 21" using assms by (simp add: length_rows3)
  then obtain r rs where rows: "rows3 p = r # rs" by (cases "rows3 p") auto
  have "rows3 p ! 0 = (p ! 0, p ! 1, p ! 2)"
    using rows3_nth[of 0 p] assms by (simp add: numeral_2_eq_2)
  with rows have r: "r = (p ! 0, p ! 1, p ! 2)" by simp
  have fr: "first_row (map (\<lambda>(x, y, z). (Fin x, Fin y, Fin z)) (rows3 p))
              = Inr (Fin (p ! 0), Fin (p ! 1), Fin (p ! 2))"
    unfolding rows r by (simp add: first_row_def)
  have mp: "map (\<lambda>(x, y, z). (arr_sub x (Fin (p ! 0)), arr_sub y (Fin (p ! 1)),
                               arr_sub z (Fin (p ! 2))))
              (map (\<lambda>(x, y, z). (Fin x, Fin y, Fin z)) (rows3 p))
            = map (\<lambda>(x, y, z). (arr_sub (Fin x) (Fin (p ! 0)), arr_sub (Fin y) (Fin (p ! 1)),
                                    arr_sub (Fin z) (Fin (p ! 2)))) (rows3 p)"
    by (simp add: split_def)
  show ?thesis
    unfolding translate_to_wrist_def reshape_21_3_def rows3_map
    using assms fr mp by (simp add: bind_exc_def)
qed

lemma translate_to_wrist_Fin:
  assumes "length p = 63" and "fits32 (translate_spec p)"
  shows "translate_to_wrist (map Fin p)
           = Inr (map (\<lambda>(x, y, z). (Fin x, Fin y, Fin z)) (translate_spec p))"
proof -
  have fm: "0 \<le> float_max" using float_max_ge by simp
  have "map (\<lambda>(x, y, z). (arr_sub (Fin x) (Fin (p ! 0)), arr_sub (Fin y) (Fin (p ! 1)),
                          arr_sub (Fin z) (Fin (p ! 2)))) (rows3 p)
        = map (\<lambda>(x, y, z). (Fin x, Fin y, Fin z)) (translate_spec p)"
    unfolding translate_spec_def map_map
  proof (rule map_cong[OF refl])
    fix r assume r: "r \<in> set (rows3 p)"
    obtain x y z where xyz: "r = (x, y, z)" by (cases r)
    have "(x - p ! 0, y - p ! 1, z - p ! 2) \<in> set (translate_spec p)"
      using r xyz by (force simp: translate_spec_def)
    with assms(2) have b: "\<bar>x - p ! 0\<bar> \<le> float_max / 2" "\<bar>y - p ! 1\<bar> \<le> float_max / 2"
      "\<bar>z - p ! 2\<bar> \<le> float_max"
      by (auto simp: fits32_def)
    have "\<bar>x - p ! 0\<bar> \<le> float_max" "\<bar>y - p ! 1\<bar> \<le> float_max"
      using b fm by linarith+
    with b(3) show "(case r of (x, y, z) \<Rightarrow>
            (arr_sub (Fin x) (Fin (p ! 0)), arr_sub (Fin y) (Fin (p ! 1)),
             arr_sub (Fin z) (Fin (p ! 2))))
          = ((\<lambda>(x, y, z). (Fin x, Fin y, Fin z)) \<circ> (\<lambda>(x, y, z). (x - p ! 0, y - p ! 1, z - p ! 2))) r"
      by (simp add: xyz arr_sub_Fin)
  qed
  with translate_to_wrist_eq[OF assms(1)] show ?thesis by simp
qed

lemma col_x_Fin: "col_x (map (\<lambda>(x, y, z). (Fin x, Fin y, Fin z)) t) = map Fin (col_x t)"
  by (simp add: col_x_def split_def)

lemma col_y_Fin: "col_y (map (\<lambda>(x, y, z). (Fin x, Fin y, Fin z)) t) = map Fin (col_y t)"
  by (simp add: col_y_def split_def)

lemma x_range_spec_pos: "1 \<le> x_range_spec p"
  by (simp add: x_range_spec_def)

lemma y_range_spec_pos: "1 \<le> y_range_spec p"
  by (simp add: y_range_spec_def)

lemma fits32_cols:
  assumes "fits32 t"
  shows "c \<in> set (col_x t) \<Longrightarrow> \<bar>c\<bar> \<le> float_max / 2"
    and "c \<in> set (col_y t) \<Longrightarrow> \<bar>c\<bar> \<le> float_max / 2"
  using assms by (auto simp: fits32_def col_x_def col_y_def)

lemma spread_fits:
  fixes cs :: "real list"
  assumes "cs \<noteq> []" and "\<And>c. c \<in> set cs \<Longrightarrow> \<bar>c\<bar> \<le> float_max / 2"
  shows "Max (set cs) - Min (set cs) \<le> float_max"
proof -
  have "Max (set cs) \<in> set cs" and "Min (set cs) \<in> set cs" using assms(1) by simp_all
  from assms(2)[OF this(1)] assms(2)[OF this(2)] show ?thesis by linarith
qed

lemma flatten_rescale_Fin:
  assumes "\<forall>r\<in>set t. mx \<le> fst r \<and> fst r - mx \<le> rx
                     \<and> my \<le> fst (snd r) \<and> fst (snd r) - my \<le> ry"
      and "1 \<le> rx" and "rx \<le> float_max" and "1 \<le> ry" and "ry \<le> float_max"
  shows "flatten (map (\<lambda>(x, y, z). (rescale (Fin mx) (Fin rx) x, rescale (Fin my) (Fin ry) y, z))
                  (map (\<lambda>(x, y, z). (Fin x, Fin y, Fin z)) t))
           = map Fin (flatten (map (\<lambda>(x, y, z).
                 ((x - mx) / rx * 2 - 1, (y - my) / ry * 2 - 1, z)) t))"
  using assms(1)
proof (induction t)
  case Nil
  then show ?case by (simp add: flatten_def)
next
  case (Cons r t)
  obtain x y z where r: "r = (x, y, z)" by (cases r)
  from Cons.prems r have b: "mx \<le> x" "x - mx \<le> rx" "my \<le> y" "y - my \<le> ry" by simp_all
  have ih: "flatten (map (\<lambda>(x, y, z). (rescale (Fin mx) (Fin rx) x, rescale (Fin my) (Fin ry) y, z))
                  (map (\<lambda>(x, y, z). (Fin x, Fin y, Fin z)) t))
           = map Fin (flatten (map (\<lambda>(x, y, z).
                 ((x - mx) / rx * 2 - 1, (y - my) / ry * 2 - 1, z)) t))"
    using Cons.IH Cons.prems by simp
  have hx: "rescale (Fin mx) (Fin rx) (Fin x) = Fin ((x - mx) / rx * 2 - 1)"
    by (rule rescale_Fin[OF b(1,2) assms(2,3)])
  have hy: "rescale (Fin my) (Fin ry) (Fin y) = Fin ((y - my) / ry * 2 - 1)"
    by (rule rescale_Fin[OF b(3,4) assms(4,5)])
  have "flatten (map (\<lambda>(x, y, z). (rescale (Fin mx) (Fin rx) x, rescale (Fin my) (Fin ry) y, z))
                  (map (\<lambda>(x, y, z). (Fin x, Fin y, Fin z)) (r # t)))
        = [rescale (Fin mx) (Fin rx) (Fin x), rescale (Fin my) (Fin ry) (Fin y), Fin z]
          @ flatten (map (\<lambda>(x, y, z). (rescale (Fin mx) (Fin rx) x, rescale (Fin my) (Fin ry) y, z))
                  (map (\<lambda>(x, y, z). (Fin x, Fin y, Fin z)) t))"
    by (simp add: flatten_def r)
  also have "\<dots> = map Fin ([(x - mx) / rx * 2 - 1, (y - my) / ry * 2 - 1, z]
          @ flatten (map (\<lambda>(x, y, z).
                 ((x - mx) / rx * 2 - 1, (y - my) / ry * 2 - 1, z)) t))"
    unfolding ih hx hy by simp
  also have "\<dots> = map Fin (flatten (map (\<lambda>(x, y, z).
                 ((x - mx) / rx * 2 - 1, (y - my) / ry * 2 - 1, z)) (r # t)))"
    by (simp add: flatten_def r)
  finally show ?case .
qed

lemma preprocess_refines:
  assumes "length p = 63" and fits: "fits32 (translate_spec p)"
  shows "preprocess_landmarks (Some (map Fin p)) = Inr (Some (map Fin (normalize_spec p)))"
proof -
  let ?t = "translate_spec p"
  have fm: "1 \<le> float_max" using float_max_ge by simp
  have ne: "?t \<noteq> []" using assms length_translate_spec[of p] by auto
  then have nx: "col_x ?t \<noteq> []" and ny: "col_y ?t \<noteq> []"
    by (simp_all add: col_x_def col_y_def)
  have sx: "Max (set (col_x ?t)) - Min (set (col_x ?t)) \<le> float_max"
    by (rule spread_fits[OF nx fits32_cols(1)[OF fits]])
  have sy: "Max (set (col_y ?t)) - Min (set (col_y ?t)) \<le> float_max"
    by (rule spread_fits[OF ny fits32_cols(2)[OF fits]])
  have ax: "axis_min_range (map Fin (col_x ?t)) = Inr (Fin (x_min_spec p), Fin (x_range_spec p))"
    by (simp add: axis_min_range_Fin[OF nx sx] x_min_spec_def x_range_spec_def)
  have ay: "axis_min_range (map Fin (col_y ?t)) = Inr (Fin (y_min_spec p), Fin (y_range_spec p))"
    by (simp add: axis_min_range_Fin[OF ny sy] y_min_spec_def y_range_spec_def)
  have rx: "x_range_spec p \<le> float_max" using sx fm by (simp add: x_range_spec_def x_min_spec_def)
  have ry: "y_range_spec p \<le> float_max" using sy fm by (simp add: y_range_spec_def y_min_spec_def)
  have el: "\<forall>r\<in>set ?t. x_min_spec p \<le> fst r \<and> fst r - x_min_spec p \<le> x_range_spec p
                     \<and> y_min_spec p \<le> fst (snd r) \<and> fst (snd r) - y_min_spec p \<le> y_range_spec p"
  proof
    fix r assume r: "r \<in> set ?t"
    then have cx: "fst r \<in> set (col_x ?t)" and cy: "fst (snd r) \<in> set (col_y ?t)"
      by (auto simp: col_x_def col_y_def split_def)
    have "Min (set (col_x ?t)) \<le> fst r" "fst r \<le> Max (set (col_x ?t))"
      "Min (set (col_y ?t)) \<le> fst (snd r)" "fst (snd r) \<le> Max (set (col_y ?t))"
      using cx cy by simp_all
    then show "x_min_spec p \<le> fst r \<and> fst r - x_min_spec p \<le> x_range_spec p
                     \<and> y_min_spec p \<le> fst (snd r) \<and> fst (snd r) - y_min_spec p \<le> y_range_spec p"
      unfolding x_min_spec_def x_range_spec_def y_min_spec_def y_range_spec_def
      by (auto simp: max_def)
  qed
  have fl: "flatten (map (\<lambda>(x, y, z).
               (rescale (Fin (x_min_spec p)) (Fin (x_range_spec p)) x,
                rescale (Fin (y_min_spec p)) (Fin (y_range_spec p)) y, z))
             (map (\<lambda>(x, y, z). (Fin x, Fin y, Fin z)) ?t))
          = map Fin (normalize_spec p)"
    unfolding normalize_spec_def
    by (rule flatten_rescale_Fin[OF el x_range_spec_pos rx y_range_spec_pos ry])
  have "preprocess_landmarks (Some (map Fin p))
          = Inr (Some (flatten (map (\<lambda>(x, y, z).
               (rescale (Fin (x_min_spec p)) (Fin (x_range_spec p)) x,
                rescale (Fin (y_min_spec p)) (Fin (y_range_spec p)) y, z))
             (map (\<lambda>(x, y, z). (Fin x, Fin y, Fin z)) ?t))))"
    unfolding preprocess_landmarks_def
    by (simp only: option.case translate_to_wrist_Fin[OF assms] bind_exc_def sum.case
          col_x_Fin col_y_Fin ax ay prod.case)
  then show ?thesis by (simp only: fl)
qed

lemma rows3_elems:
  "r \<in> set (rows3 p) \<Longrightarrow> fst r \<in> set p \<and> fst (snd r) \<in> set p \<and> snd (snd r) \<in> set p"
  by (induction p rule: rows3.induct) auto

lemma bounded_fits:
  assumes "length p = 63" and "\<forall>v\<in>set p. \<bar>v\<bar> \<le> float_max / 4"
  shows "fits32 (translate_spec p)"
  unfolding fits32_def
proof
  fix r assume "r \<in> set (translate_spec p)"
  then obtain r0 where r0: "r0 \<in> set (rows3 p)"
    and r: "r = (fst r0 - p ! 0, fst (snd r0) - p ! 1, snd (snd r0) - p ! 2)"
    by (auto simp: translate_spec_def)
  have w: "p ! 0 \<in> set p" "p ! 1 \<in> set p" "p ! 2 \<in> set p" using assms(1) by simp_all
  have fm: "0 \<le> float_max" using float_max_ge by simp
  from rows3_elems[OF r0] w assms(2)
  have "\<bar>fst r0\<bar> \<le> float_max / 4" "\<bar>fst (snd r0)\<bar> \<le> float_max / 4"
    "\<bar>snd (snd r0)\<bar> \<le> float_max / 4"
    "\<bar>p ! 0\<bar> \<le> float_max / 4" "\<bar>p ! 1\<bar> \<le> float_max / 4" "\<bar>p ! 2\<bar> \<le> float_max / 4"
    by blast+
  with fm show "\<bar>fst r\<bar> \<le> float_max / 2 \<and> \<bar>fst (snd r)\<bar> \<le> float_max / 2
                 \<and> \<bar>snd (snd r)\<bar> \<le> float_max"
    unfolding r by (simp only: fst_conv snd_conv) linarith
qed

subsection \<open>Bounds of the formula, and a pose beyond the range\<close>

lemma length_normalize_spec: "length p = 63 \<Longrightarrow> length (normalize_spec p) = 63"
  by (simp add: normalize_spec_def length_flatten length_translate_spec)

lemma normalize_spec_nth:
  assumes "length p = 63" and "k < 21"
  shows "normalize_spec p ! (3 * k) = (p ! (3 * k) - p ! 0 - x_min_spec p) / x_range_spec p * 2 - 1"
    and "normalize_spec p ! (3 * k + 1)
           = (p ! (3 * k + 1) - p ! 1 - y_min_spec p) / y_range_spec p * 2 - 1"
    and "normalize_spec p ! (3 * k + 2) = p ! (3 * k + 2) - p ! 2"
proof -
  have k: "k < length (translate_spec p)" "k < length p div 3"
    using assms by (simp_all add: length_translate_spec)
  let ?g = "\<lambda>(x, y, z). ((x - x_min_spec p) / x_range_spec p * 2 - 1,
                          (y - y_min_spec p) / y_range_spec p * 2 - 1, z)"
  have kk: "k < length (map ?g (translate_spec p))" using k by simp
  have nth: "map ?g (translate_spec p) ! k = ?g (translate_spec p ! k)"
    using k by simp
  from flatten_nth[OF kk]
  show "normalize_spec p ! (3 * k) = (p ! (3 * k) - p ! 0 - x_min_spec p) / x_range_spec p * 2 - 1"
    and "normalize_spec p ! (3 * k + 1)
           = (p ! (3 * k + 1) - p ! 1 - y_min_spec p) / y_range_spec p * 2 - 1"
    and "normalize_spec p ! (3 * k + 2) = p ! (3 * k + 2) - p ! 2"
    unfolding normalize_spec_def[symmetric] nth translate_spec_nth[OF k(2)]
    by (simp_all add: normalize_spec_def)
qed

lemma rescaled_in_unit:
  fixes c :: real
  assumes "c \<in> set cs"
  shows "- 1 \<le> (c - Min (set cs)) / max (Max (set cs) - Min (set cs)) 1 * 2 - 1"
    and "(c - Min (set cs)) / max (Max (set cs) - Min (set cs)) 1 * 2 - 1 \<le> 1"
proof -
  let ?r = "max (Max (set cs) - Min (set cs)) 1"
  have lo: "Min (set cs) \<le> c" and hi: "c \<le> Max (set cs)" using assms by simp_all
  have r: "0 < ?r" by simp
  have a: "0 \<le> c - Min (set cs)" using lo by simp
  have b: "c - Min (set cs) \<le> ?r" using hi by simp
  have q0: "0 \<le> (c - Min (set cs)) / ?r" using a r by simp
  have q1: "(c - Min (set cs)) / ?r \<le> 1" using b r by (simp add: divide_le_eq_1)
  have g0: "\<And>q :: real. 0 \<le> q \<Longrightarrow> - 1 \<le> q * 2 - 1" by simp
  have g1: "\<And>q :: real. q \<le> 1 \<Longrightarrow> q * 2 - 1 \<le> 1" by simp
  show "- 1 \<le> (c - Min (set cs)) / ?r * 2 - 1" using q0 by (rule g0)
  show "(c - Min (set cs)) / ?r * 2 - 1 \<le> 1" using q1 by (rule g1)
qed

lemma translated_x_in_col:
  assumes "length p = 63" and "k < 21"
  shows "p ! (3 * k) - p ! 0 \<in> set (col_x (translate_spec p))"
    and "p ! (3 * k + 1) - p ! 1 \<in> set (col_y (translate_spec p))"
proof -
  have k: "k < length (translate_spec p)" "k < length p div 3"
    using assms by (simp_all add: length_translate_spec)
  have "col_x (translate_spec p) ! k = p ! (3 * k) - p ! 0"
    using k by (simp add: col_x_def translate_spec_nth)
  moreover have "k < length (col_x (translate_spec p))" using k by (simp add: col_x_def)
  ultimately show "p ! (3 * k) - p ! 0 \<in> set (col_x (translate_spec p))"
    by (metis nth_mem)
  have "col_y (translate_spec p) ! k = p ! (3 * k + 1) - p ! 1"
    using k by (simp add: col_y_def translate_spec_nth)
  moreover have "k < length (col_y (translate_spec p))" using k by (simp add: col_y_def)
  ultimately show "p ! (3 * k + 1) - p ! 1 \<in> set (col_y (translate_spec p))"
    by (metis nth_mem)
qed

lemma normalize_spec_bounds:
  assumes "length p = 63" and "k < 21"
  shows "- 1 \<le> normalize_spec p ! (3 * k) \<and> normalize_spec p ! (3 * k) \<le> 1
       \<and> - 1 \<le> normalize_spec p ! (3 * k + 1) \<and> normalize_spec p ! (3 * k + 1) \<le> 1"
proof -
  from rescaled_in_unit[OF translated_x_in_col(1)[OF assms]]
  have x: "- 1 \<le> normalize_spec p ! (3 * k) \<and> normalize_spec p ! (3 * k) \<le> 1"
    unfolding normalize_spec_nth(1)[OF assms] x_min_spec_def x_range_spec_def by blast
  from rescaled_in_unit[OF translated_x_in_col(2)[OF assms]]
  have y: "- 1 \<le> normalize_spec p ! (3 * k + 1) \<and> normalize_spec p ! (3 * k + 1) \<le> 1"
    unfolding normalize_spec_nth(2)[OF assms] y_min_spec_def y_range_spec_def by blast
  from x y show ?thesis by blast
qed

lemma foldl_absorb: "f a b = a \<Longrightarrow> foldl f a (replicate n b) = a"
  by (induction n) simp_all

lemma rows3_replicate: "rows3 (replicate (3 * n) v) = replicate n (v, v, v)"
proof (induction n)
  case 0
  then show ?case by simp
next
  case (Suc n)
  have "replicate (3 * Suc n) v = v # v # v # replicate (3 * n) v"
    by (simp add: numeral_3_eq_3)
  with Suc show ?case by simp
qed

lemma far_bounds: "0 < far" "far \<le> float_max" "float_max < far + far"
  by (simp_all add: far_def float_max_def)

lemma far_sub:
  "arr_sub (Fin far) (Fin (- far)) = PInf"
  "arr_sub (Fin 0) (Fin (- far)) = Fin far"
  "arr_sub (Fin (- far)) (Fin (- far)) = Fin 0"
  "arr_sub (Fin 0) (Fin 0) = Fin 0"
  using far_bounds float_max_ge by (simp_all add: arr_sub_def fsub_def)

lemma far_min_max:
  "np_min (Fin 0 # PInf # replicate n (Fin far)) = Inr (Fin 0)"
  "np_max (Fin 0 # PInf # replicate n (Fin far)) = Inr PInf"
  "np_min (Fin 0 # Fin 0 # replicate n (Fin 0)) = Inr (Fin 0)"
  "np_max (Fin 0 # Fin 0 # replicate n (Fin 0)) = Inr (Fin 0)"
  using far_bounds(1)
  by (simp_all add: fmin2_def fmax2_def fgt_def foldl_absorb)

lemma far_axis:
  "axis_min_range (Fin 0 # PInf # replicate n (Fin far)) = Inr (Fin 0, PInf)"
  "axis_min_range (Fin 0 # Fin 0 # replicate n (Fin 0)) = Inr (Fin 0, Fin 1)"
  unfolding axis_min_range_def far_min_max
  using float_max_ge
  by (simp_all add: bind_exc_def arr_sub_def fsub_def py_max2_def fgt_def)

lemma far_rescale:
  "rescale (Fin 0) PInf (Fin 0) = Fin (- 1)"
  "rescale (Fin 0) PInf PInf = NaN"
  "rescale (Fin 0) PInf (Fin far) = Fin (- 1)"
  "rescale (Fin 0) (Fin 1) (Fin 0) = Fin (- 1)"
  using far_bounds float_max_ge
  by (simp_all add: rescale_def arr_sub_def arr_mul_def arr_div_def fsub_def)

lemma far_x_translated:
  "translate_to_wrist (map Fin pose_far_x)
     = Inr ((Fin 0, Fin 0, Fin 0) # (PInf, Fin 0, Fin 0) # replicate 19 (Fin far, Fin 0, Fin 0))"
proof -
  have len: "length pose_far_x = 63" by (simp add: pose_far_x_def)
  have "replicate 57 (0 :: real) = replicate (3 * 19) 0" by simp
  then have rows: "rows3 pose_far_x = (- far, 0, 0) # (far, 0, 0) # replicate 19 (0, 0, 0)"
    unfolding pose_far_x_def by (simp only: append.simps rows3.simps rows3_replicate)
  have p: "pose_far_x ! 0 = - far" "pose_far_x ! 1 = 0" "pose_far_x ! 2 = 0"
    by (simp_all add: pose_far_x_def)
  show ?thesis
    unfolding translate_to_wrist_eq[OF len] rows p
    by (simp add: far_sub)
qed

text \<open>
  C1, as stated, fails: in the pose \<open>pose_far_x\<close> the translation of keypoint 1
  overflows to infinity, the x range is infinite, and the rescaled x of keypoint 1 is
  NaN, which is not in [-1, 1] and not what the formula gives on numbers.
\<close>

theorem far_pose_normalizes_to_nan:
  "preprocess_landmarks (Some (map Fin pose_far_x))
     = Inr (Some ([Fin (- 1), Fin (- 1), Fin 0, NaN, Fin (- 1), Fin 0]
                  @ concat (replicate 19 [Fin (- 1), Fin (- 1), Fin 0])))"
  unfolding preprocess_landmarks_def
  by (simp add: far_x_translated bind_exc_def col_x_def col_y_def far_axis far_rescale
        flatten_def)

text \<open>
  C1, amended: for every pose \<open>p\<close> of 21 keypoints (63 numbers) whose coordinates are at
  most a quarter of the largest finite \<open>float32\<close> number in magnitude,
  \<open>preprocess_landmarks\<close> returns the 63 numbers of \<open>normalize_spec p\<close>: with every
  keypoint translated by the wrist, each x is \<open>(x - x_min) / x_range * 2 - 1\<close> where
  \<open>x_range\<close> is \<open>max (x_max - x_min) 1\<close>, each y likewise with its own minimum and
  range, and each z is only translated. Every x and y of the result lies in [-1, 1], and
  the element at index 0 is \<open>(0 - x_min) / x_range * 2 - 1\<close>.
\<close>

theorem preprocess_landmarks_normalizes:
  assumes "length p = 63" and "\<forall>v\<in>set p. \<bar>v\<bar> \<le> float_max / 4"
  shows "preprocess_landmarks (Some (map Fin p)) = Inr (Some (map Fin (normalize_spec p)))
       \<and> length (normalize_spec p) = 63
       \<and> (\<forall>k<21.
            normalize_spec p ! (3 * k)
              = (p ! (3 * k) - p ! 0 - x_min_spec p) / x_range_spec p * 2 - 1
          \<and> normalize_spec p ! (3 * k + 1)
              = (p ! (3 * k + 1) - p ! 1 - y_min_spec p) / y_range_spec p * 2 - 1
          \<and> normalize_spec p ! (3 * k + 2) = p ! (3 * k + 2) - p ! 2
          \<and> - 1 \<le> normalize_spec p ! (3 * k) \<and> normalize_spec p ! (3 * k) \<le> 1
          \<and> - 1 \<le> normalize_spec p ! (3 * k + 1) \<and> normalize_spec p ! (3 * k + 1) \<le> 1)
       \<and> normalize_spec p ! 0 = (0 - x_min_spec p) / x_range_spec p * 2 - 1"
proof -
  have z: "normalize_spec p ! 0 = (0 - x_min_spec p) / x_range_spec p * 2 - 1"
    using normalize_spec_nth(1)[OF assms(1), of 0] by simp
  show ?thesis
    using preprocess_refines[OF assms(1) bounded_fits[OF assms]]
      length_normalize_spec[OF assms(1)]
      normalize_spec_nth[OF assms(1)] normalize_spec_bounds[OF assms(1)] z
    by blast
qed

lemma float_max_quarter: "1000 \<le> float_max / 4"
  by (simp add: float_max_def)

theorem preprocess_landmarks_normalizes_witness:
  "length ([100, 200, 0] @ concat (replicate 19 [90, 190, 1 / 2]) @ [120, 220, 1 :: real]) = 63
   \<and> preprocess_landmarks
        (Some (map Fin ([100, 200, 0] @ concat (replicate 19 [90, 190, 1 / 2]) @ [120, 220, 1])))
      = Inr (Some (map Fin (normalize_spec
          ([100, 200, 0] @ concat (replicate 19 [90, 190, 1 / 2]) @ [120, 220, 1]))))
   \<and> x_min_spec ([100, 200, 0] @ concat (replicate 19 [90, 190, 1 / 2]) @ [120, 220, 1]) = - 10
   \<and> x_range_spec ([100, 200, 0] @ concat (replicate 19 [90, 190, 1 / 2]) @ [120, 220, 1]) = 30
   \<and> normalize_spec ([100, 200, 0] @ concat (replicate 19 [90, 190, 1 / 2]) @ [120, 220, 1]) ! 0
        = - 1 / 3
   \<and> normalize_spec ([100, 200, 0] @ concat (replicate 19 [90, 190, 1 / 2]) @ [120, 220, 1]) ! 60
        = 1"
proof -
  let ?p = "[100, 200, 0] @ concat (replicate 19 [90, 190, 1 / 2]) @ [120, 220, 1 :: real]"
  have len: "length ?p = 63" by (simp add: length_concat sum_list_replicate)
  have "\<forall>v\<in>set ?p. \<bar>v\<bar> \<le> 1000" by auto
  with float_max_quarter have bd: "\<forall>v\<in>set ?p. \<bar>v\<bar> \<le> float_max / 4"
    by (meson order_trans)
  have t: "translate_spec ?p
             = (0, 0, 0) # replicate 19 (- 10, - 10, 1 / 2) @ [(20, 20, 1)]"
    by (simp add: translate_spec_def numeral_eq_Suc)
  have mn: "x_min_spec ?p = - 10"
    unfolding x_min_spec_def t by (simp add: col_x_def)
  have rg: "x_range_spec ?p = 30"
    unfolding x_range_spec_def mn unfolding t by (simp add: col_x_def)
  note th = preprocess_landmarks_normalizes[OF len bd]
  have a: "preprocess_landmarks (Some (map Fin ?p)) = Inr (Some (map Fin (normalize_spec ?p)))"
    by (rule th[THEN conjunct1])
  have b: "normalize_spec ?p ! 0 = (0 - x_min_spec ?p) / x_range_spec ?p * 2 - 1"
    by (rule th[THEN conjunct2, THEN conjunct2, THEN conjunct2])
  have "(20::nat) < 21" by simp
  with th[THEN conjunct2, THEN conjunct2, THEN conjunct1]
  have c: "normalize_spec ?p ! (3 * 20)
              = (?p ! (3 * 20) - ?p ! 0 - x_min_spec ?p) / x_range_spec ?p * 2 - 1"
    by blast
  have p60: "?p ! (3 * 20) = 120" by (simp add: nth_append length_concat sum_list_replicate)
  have p0: "?p ! 0 = 100" by simp
  have b': "normalize_spec ?p ! 0 = - 1 / 3" unfolding b mn rg by simp
  have c': "normalize_spec ?p ! 60 = 1" using c unfolding p60 p0 mn rg by simp
  from len a mn rg b' c' show ?thesis by (simp only: simp_thms)
qed

subsection \<open>Degenerate poses\<close>

lemma col_x_translate_elem:
  assumes "length p = 63" and "c \<in> set (col_x (translate_spec p))"
  shows "\<exists>j<21. c = p ! (3 * j) - p ! 0"
proof -
  from assms(2) obtain j where j: "j < length (col_x (translate_spec p))"
    and c: "col_x (translate_spec p) ! j = c"
    by (auto simp: in_set_conv_nth)
  have j21: "j < 21" using j assms(1) by (simp add: col_x_def length_translate_spec)
  then have "j < length p div 3" using assms(1) by simp
  then have "col_x (translate_spec p) ! j = p ! (3 * j) - p ! 0"
    using j by (simp add: col_x_def translate_spec_nth)
  with c j21 show ?thesis by auto
qed

lemma col_y_translate_elem:
  assumes "length p = 63" and "c \<in> set (col_y (translate_spec p))"
  shows "\<exists>j<21. c = p ! (3 * j + 1) - p ! 1"
proof -
  from assms(2) obtain j where j: "j < length (col_y (translate_spec p))"
    and c: "col_y (translate_spec p) ! j = c"
    by (auto simp: in_set_conv_nth)
  have j21: "j < 21" using j assms(1) by (simp add: col_y_def length_translate_spec)
  then have "j < length p div 3" using assms(1) by simp
  then have "col_y (translate_spec p) ! j = p ! (3 * j + 1) - p ! 1"
    using j by (simp add: col_y_def translate_spec_nth)
  with c j21 show ?thesis by auto
qed

lemma col_nonempty:
  assumes "length p = 63"
  shows "col_x (translate_spec p) \<noteq> []" and "col_y (translate_spec p) \<noteq> []"
  using assms length_translate_spec[of p] by (auto simp: col_x_def col_y_def)

lemma x_range_clamped:
  assumes len: "length p = 63"
      and spread: "\<forall>j<21. \<forall>k<21. p ! (3 * j) - p ! (3 * k) < 1"
  shows "x_range_spec p = 1"
proof -
  let ?cs = "set (col_x (translate_spec p))"
  have ne: "?cs \<noteq> {}" using col_nonempty(1)[OF len] by simp
  have "Max ?cs \<in> ?cs" and "Min ?cs \<in> ?cs" using ne by simp_all
  then obtain j k where "j < 21" "k < 21"
    and "Max ?cs = p ! (3 * j) - p ! 0" and "Min ?cs = p ! (3 * k) - p ! 0"
    using col_x_translate_elem[OF len] by blast
  with spread have "Max ?cs - Min ?cs < 1" by fastforce
  then show ?thesis by (simp add: x_range_spec_def x_min_spec_def)
qed

lemma y_range_clamped:
  assumes len: "length p = 63"
      and spread: "\<forall>j<21. \<forall>k<21. p ! (3 * j + 1) - p ! (3 * k + 1) < 1"
  shows "y_range_spec p = 1"
proof -
  let ?cs = "set (col_y (translate_spec p))"
  have ne: "?cs \<noteq> {}" using col_nonempty(2)[OF len] by simp
  have "Max ?cs \<in> ?cs" and "Min ?cs \<in> ?cs" using ne by simp_all
  then obtain j k where "j < 21" "k < 21"
    and "Max ?cs = p ! (3 * j + 1) - p ! 1" and "Min ?cs = p ! (3 * k + 1) - p ! 1"
    using col_y_translate_elem[OF len] by blast
  with spread have "Max ?cs - Min ?cs < 1" by fastforce
  then show ?thesis by (simp add: y_range_spec_def y_min_spec_def)
qed

lemma axis_ranges_Fin:
  assumes "length p = 63" and fits: "fits32 (translate_spec p)"
  shows "axis_min_range (col_x (map (\<lambda>(x, y, z). (Fin x, Fin y, Fin z)) (translate_spec p)))
           = Inr (Fin (x_min_spec p), Fin (x_range_spec p))"
    and "axis_min_range (col_y (map (\<lambda>(x, y, z). (Fin x, Fin y, Fin z)) (translate_spec p)))
           = Inr (Fin (y_min_spec p), Fin (y_range_spec p))"
proof -
  note nx = col_nonempty(1)[OF assms(1)] and ny = col_nonempty(2)[OF assms(1)]
  have sx: "Max (set (col_x (translate_spec p))) - Min (set (col_x (translate_spec p)))
              \<le> float_max"
    by (rule spread_fits[OF nx fits32_cols(1)[OF fits]])
  have sy: "Max (set (col_y (translate_spec p))) - Min (set (col_y (translate_spec p)))
              \<le> float_max"
    by (rule spread_fits[OF ny fits32_cols(2)[OF fits]])
  show "axis_min_range (col_x (map (\<lambda>(x, y, z). (Fin x, Fin y, Fin z)) (translate_spec p)))
           = Inr (Fin (x_min_spec p), Fin (x_range_spec p))"
    unfolding col_x_Fin
    by (simp add: axis_min_range_Fin[OF nx sx] x_min_spec_def x_range_spec_def)
  show "axis_min_range (col_y (map (\<lambda>(x, y, z). (Fin x, Fin y, Fin z)) (translate_spec p)))
           = Inr (Fin (y_min_spec p), Fin (y_range_spec p))"
    unfolding col_y_Fin
    by (simp add: axis_min_range_Fin[OF ny sy] y_min_spec_def y_range_spec_def)
qed

lemma flatten_replicate: "flatten (replicate n (a, b, c)) = concat (replicate n [a, b, c])"
  by (simp add: flatten_def)

lemma identical_pose:
  assumes len: "length p = 63"
      and same: "\<forall>k<21. p ! (3 * k) = p ! 0 \<and> p ! (3 * k + 1) = p ! 1 \<and> p ! (3 * k + 2) = p ! 2"
  shows "normalize_spec p = concat (replicate 21 [- 1, - 1, 0])"
proof -
  have t: "translate_spec p = replicate 21 (0, 0, 0)"
  proof (rule nth_equalityI)
    show "length (translate_spec p) = length (replicate 21 (0 :: real, 0 :: real, 0 :: real))"
      using len by (simp add: length_translate_spec)
  next
    fix i assume "i < length (translate_spec p)"
    then have i: "i < 21" using len by (simp add: length_translate_spec)
    then have "i < length p div 3" using len by simp
    from translate_spec_nth[OF this] same i
    show "translate_spec p ! i = replicate 21 (0, 0, 0) ! i" by simp
  qed
  have xm: "x_min_spec p = 0" and ym: "y_min_spec p = 0"
    by (simp_all add: x_min_spec_def y_min_spec_def t col_x_def col_y_def)
  have xr: "x_range_spec p = 1" and yr: "y_range_spec p = 1"
    by (simp_all add: x_range_spec_def y_range_spec_def xm ym t col_x_def col_y_def)
  show ?thesis
    unfolding normalize_spec_def xm ym xr yr t
    by (simp add: flatten_replicate)
qed

lemma identical_translated:
  assumes len: "length p = 63"
      and same: "\<forall>k<21. p ! (3 * k) = p ! 0 \<and> p ! (3 * k + 1) = p ! 1 \<and> p ! (3 * k + 2) = p ! 2"
  shows "translate_spec p = replicate 21 (0, 0, 0)"
proof (rule nth_equalityI)
  show "length (translate_spec p) = length (replicate 21 (0 :: real, 0 :: real, 0 :: real))"
    using len by (simp add: length_translate_spec)
next
  fix i assume "i < length (translate_spec p)"
  then have i: "i < 21" using len by (simp add: length_translate_spec)
  then have "i < length p div 3" using len by simp
  from translate_spec_nth[OF this] same i
  show "translate_spec p ! i = replicate 21 (0, 0, 0) ! i" by simp
qed

lemma identical_fits:
  assumes "length p = 63"
      and "\<forall>k<21. p ! (3 * k) = p ! 0 \<and> p ! (3 * k + 1) = p ! 1 \<and> p ! (3 * k + 2) = p ! 2"
  shows "fits32 (translate_spec p)"
  using float_max_ge unfolding identical_translated[OF assms] fits32_def by simp

lemma rows3_first_col:
  assumes "length p = 63" and "r \<in> set (rows3 p)"
  shows "\<exists>j<21. fst r = p ! (3 * j) \<and> fst (snd r) = p ! (3 * j + 1)"
proof -
  from assms(2) obtain j where j: "j < length (rows3 p)" and r: "rows3 p ! j = r"
    by (auto simp: in_set_conv_nth)
  have j21: "j < 21" using j assms(1) by (simp add: length_rows3)
  then have "j < length p div 3" using assms(1) by simp
  from rows3_nth[OF this] r j21 show ?thesis by auto
qed

lemma narrow_x_translated:
  assumes len: "length p = 63"
      and spread: "\<forall>j<21. \<forall>k<21. p ! (3 * j) - p ! (3 * k) < 1"
  shows "col_x (map (\<lambda>(x, y, z). (arr_sub (Fin x) (Fin (p ! 0)), arr_sub (Fin y) (Fin (p ! 1)),
                                    arr_sub (Fin z) (Fin (p ! 2)))) (rows3 p))
           = map Fin (col_x (translate_spec p))"
proof -
  have z: "(0::nat) < 21" by simp
  have "map (\<lambda>r. arr_sub (Fin (fst r)) (Fin (p ! 0))) (rows3 p)
          = map (\<lambda>r. Fin (fst r - p ! 0)) (rows3 p)"
  proof (rule map_cong[OF refl])
    fix r assume "r \<in> set (rows3 p)"
    from rows3_first_col[OF len this] obtain j where j: "j < 21" "fst r = p ! (3 * j)" by blast
    from spread j z have "p ! (3 * j) - p ! (3 * 0) < 1" "p ! (3 * 0) - p ! (3 * j) < 1"
      by blast+
    then have "\<bar>fst r - p ! 0\<bar> \<le> 1" using j(2) by simp
    with float_max_ge have "\<bar>fst r - p ! 0\<bar> \<le> float_max" by linarith
    then show "arr_sub (Fin (fst r)) (Fin (p ! 0)) = Fin (fst r - p ! 0)"
      by (rule arr_sub_Fin)
  qed
  then show ?thesis
    by (simp add: col_x_def translate_spec_def split_def)
qed

lemma narrow_y_translated:
  assumes len: "length p = 63"
      and spread: "\<forall>j<21. \<forall>k<21. p ! (3 * j + 1) - p ! (3 * k + 1) < 1"
  shows "col_y (map (\<lambda>(x, y, z). (arr_sub (Fin x) (Fin (p ! 0)), arr_sub (Fin y) (Fin (p ! 1)),
                                    arr_sub (Fin z) (Fin (p ! 2)))) (rows3 p))
           = map Fin (col_y (translate_spec p))"
proof -
  have z: "(0::nat) < 21" by simp
  have "map (\<lambda>r. arr_sub (Fin (fst (snd r))) (Fin (p ! 1))) (rows3 p)
          = map (\<lambda>r. Fin (fst (snd r) - p ! 1)) (rows3 p)"
  proof (rule map_cong[OF refl])
    fix r assume "r \<in> set (rows3 p)"
    from rows3_first_col[OF len this] obtain j where j: "j < 21" "fst (snd r) = p ! (3 * j + 1)"
      by blast
    from spread j z have "p ! (3 * j + 1) - p ! (3 * 0 + 1) < 1"
      "p ! (3 * 0 + 1) - p ! (3 * j + 1) < 1"
      by blast+
    then have "\<bar>fst (snd r) - p ! 1\<bar> \<le> 1" using j(2) by simp
    with float_max_ge have "\<bar>fst (snd r) - p ! 1\<bar> \<le> float_max" by linarith
    then show "arr_sub (Fin (fst (snd r))) (Fin (p ! 1)) = Fin (fst (snd r) - p ! 1)"
      by (rule arr_sub_Fin)
  qed
  then show ?thesis
    by (simp add: col_y_def translate_spec_def split_def)
qed

lemma narrow_x_axis:
  assumes len: "length p = 63"
      and spread: "\<forall>j<21. \<forall>k<21. p ! (3 * j) - p ! (3 * k) < 1"
  shows "axis_min_range (map Fin (col_x (translate_spec p))) = Inr (Fin (x_min_spec p), Fin 1)"
proof -
  note nx = col_nonempty(1)[OF len]
  have r1: "x_range_spec p = 1" by (rule x_range_clamped[OF len spread])
  then have "Max (set (col_x (translate_spec p))) - Min (set (col_x (translate_spec p))) \<le> 1"
    by (simp add: x_range_spec_def x_min_spec_def)
  with float_max_ge
  have "Max (set (col_x (translate_spec p))) - Min (set (col_x (translate_spec p))) \<le> float_max"
    by linarith
  from axis_min_range_Fin[OF nx this] r1 show ?thesis
    by (simp add: x_range_spec_def x_min_spec_def)
qed

lemma narrow_y_axis:
  assumes len: "length p = 63"
      and spread: "\<forall>j<21. \<forall>k<21. p ! (3 * j + 1) - p ! (3 * k + 1) < 1"
  shows "axis_min_range (map Fin (col_y (translate_spec p))) = Inr (Fin (y_min_spec p), Fin 1)"
proof -
  note ny = col_nonempty(2)[OF len]
  have r1: "y_range_spec p = 1" by (rule y_range_clamped[OF len spread])
  then have "Max (set (col_y (translate_spec p))) - Min (set (col_y (translate_spec p))) \<le> 1"
    by (simp add: y_range_spec_def y_min_spec_def)
  with float_max_ge
  have "Max (set (col_y (translate_spec p))) - Min (set (col_y (translate_spec p))) \<le> float_max"
    by linarith
  from axis_min_range_Fin[OF ny this] r1 show ?thesis
    by (simp add: y_range_spec_def y_min_spec_def)
qed

lemma far_y_translated:
  "translate_to_wrist (map Fin pose_far_y)
     = Inr ((Fin 0, Fin 0, Fin 0) # (Fin 0, PInf, Fin 0) # replicate 19 (Fin 0, Fin far, Fin 0))"
proof -
  have len: "length pose_far_y = 63" by (simp add: pose_far_y_def)
  have "replicate 57 (0 :: real) = replicate (3 * 19) 0" by simp
  then have rows: "rows3 pose_far_y = (0, - far, 0) # (0, far, 0) # replicate 19 (0, 0, 0)"
    unfolding pose_far_y_def by (simp only: append.simps rows3.simps rows3_replicate)
  have p: "pose_far_y ! 0 = 0" "pose_far_y ! 1 = - far" "pose_far_y ! 2 = 0"
    by (simp_all add: pose_far_y_def)
  show ?thesis
    unfolding translate_to_wrist_eq[OF len] rows p
    by (simp add: far_sub)
qed

text \<open>
  C5, as stated, fails: all x of the pose \<open>pose_far_y\<close> are 0, so its x spread is below
  1, yet the translation of keypoint 1 overflows in y and the result holds a NaN.
\<close>

theorem narrow_pose_normalizes_to_nan:
  "col_x (rows3 pose_far_y) = replicate 21 0
   \<and> preprocess_landmarks (Some (map Fin pose_far_y))
     = Inr (Some ([Fin (- 1), Fin (- 1), Fin 0, Fin (- 1), NaN, Fin 0]
                  @ concat (replicate 19 [Fin (- 1), Fin (- 1), Fin 0])))"
proof -
  have "replicate 57 (0 :: real) = replicate (3 * 19) 0" by simp
  then have rows: "rows3 pose_far_y = (0, - far, 0) # (0, far, 0) # replicate 19 (0, 0, 0)"
    unfolding pose_far_y_def by (simp only: append.simps rows3.simps rows3_replicate)
  have "replicate 21 (0 :: real) = 0 # 0 # replicate 19 0"
    by (simp add: numeral_eq_Suc)
  then have a: "col_x (rows3 pose_far_y) = replicate 21 0"
    unfolding rows by (simp add: col_x_def)
  have b: "preprocess_landmarks (Some (map Fin pose_far_y))
     = Inr (Some ([Fin (- 1), Fin (- 1), Fin 0, Fin (- 1), NaN, Fin 0]
                  @ concat (replicate 19 [Fin (- 1), Fin (- 1), Fin 0])))"
    unfolding preprocess_landmarks_def
    by (simp add: far_y_translated bind_exc_def col_x_def col_y_def far_axis far_rescale
          flatten_def)
  from a b show ?thesis by (rule conjI)
qed

text \<open>
  C5, amended: when all 21 keypoints are identical, whatever their magnitude, the result
  is defined and every keypoint of it is \<open>(-1, -1, 0)\<close>. For every pose, an axis
  whose spread (over the keypoints) is below 1 has its range clamped to exactly 1, so
  that axis is not divided by zero. For every pose whose coordinates are at most a
  quarter of the largest finite \<open>float32\<close> number in magnitude, both divisors are
  finite numbers that are at least 1, exactly 1 where the spread is below 1, and the
  result has 63 components, none of them NaN or infinite.
\<close>

theorem degenerate_pose_is_defined:
  assumes "length p = 63"
  shows "((\<forall>k<21. p ! (3 * k) = p ! 0 \<and> p ! (3 * k + 1) = p ! 1 \<and> p ! (3 * k + 2) = p ! 2)
            \<longrightarrow> preprocess_landmarks (Some (map Fin p))
                  = Inr (Some (concat (replicate 21 [Fin (- 1), Fin (- 1), Fin 0]))))
       \<and> (\<exists>nl. translate_to_wrist (map Fin p) = Inr nl
             \<and> ((\<forall>j<21. \<forall>k<21. p ! (3 * j) - p ! (3 * k) < 1)
                  \<longrightarrow> axis_min_range (col_x nl) = Inr (Fin (x_min_spec p), Fin 1))
             \<and> ((\<forall>j<21. \<forall>k<21. p ! (3 * j + 1) - p ! (3 * k + 1) < 1)
                  \<longrightarrow> axis_min_range (col_y nl) = Inr (Fin (y_min_spec p), Fin 1)))
       \<and> ((\<forall>v\<in>set p. \<bar>v\<bar> \<le> float_max / 4) \<longrightarrow>
            (\<exists>nl out mx rx my ry.
               translate_to_wrist (map Fin p) = Inr nl
             \<and> axis_min_range (col_x nl) = Inr (Fin mx, Fin rx) \<and> 1 \<le> rx
             \<and> axis_min_range (col_y nl) = Inr (Fin my, Fin ry) \<and> 1 \<le> ry
             \<and> ((\<forall>j<21. \<forall>k<21. p ! (3 * j) - p ! (3 * k) < 1) \<longrightarrow> rx = 1)
             \<and> ((\<forall>j<21. \<forall>k<21. p ! (3 * j + 1) - p ! (3 * k + 1) < 1) \<longrightarrow> ry = 1)
             \<and> preprocess_landmarks (Some (map Fin p)) = Inr (Some out)
             \<and> length out = 63 \<and> (\<forall>s\<in>set out. is_fin s)))"
proof -
  have ident: "(\<forall>k<21. p ! (3 * k) = p ! 0 \<and> p ! (3 * k + 1) = p ! 1 \<and> p ! (3 * k + 2) = p ! 2)
            \<longrightarrow> preprocess_landmarks (Some (map Fin p))
                  = Inr (Some (concat (replicate 21 [Fin (- 1), Fin (- 1), Fin 0])))"
  proof
    assume same: "\<forall>k<21. p ! (3 * k) = p ! 0 \<and> p ! (3 * k + 1) = p ! 1 \<and> p ! (3 * k + 2) = p ! 2"
    have "map Fin (normalize_spec p) = concat (replicate 21 [Fin (- 1), Fin (- 1), Fin 0])"
      unfolding identical_pose[OF assms same] by (simp add: map_concat)
    with preprocess_refines[OF assms identical_fits[OF assms same]]
    show "preprocess_landmarks (Some (map Fin p))
                  = Inr (Some (concat (replicate 21 [Fin (- 1), Fin (- 1), Fin 0])))"
      by simp
  qed
  let ?nl = "map (\<lambda>(x, y, z). (arr_sub (Fin x) (Fin (p ! 0)), arr_sub (Fin y) (Fin (p ! 1)),
                                arr_sub (Fin z) (Fin (p ! 2)))) (rows3 p)"
  have narrow: "\<exists>nl. translate_to_wrist (map Fin p) = Inr nl
             \<and> ((\<forall>j<21. \<forall>k<21. p ! (3 * j) - p ! (3 * k) < 1)
                  \<longrightarrow> axis_min_range (col_x nl) = Inr (Fin (x_min_spec p), Fin 1))
             \<and> ((\<forall>j<21. \<forall>k<21. p ! (3 * j + 1) - p ! (3 * k + 1) < 1)
                  \<longrightarrow> axis_min_range (col_y nl) = Inr (Fin (y_min_spec p), Fin 1))"
  proof (intro exI[of _ ?nl] conjI impI)
    show "translate_to_wrist (map Fin p) = Inr ?nl" by (rule translate_to_wrist_eq[OF assms])
  next
    assume s: "\<forall>j<21. \<forall>k<21. p ! (3 * j) - p ! (3 * k) < 1"
    show "axis_min_range (col_x ?nl) = Inr (Fin (x_min_spec p), Fin 1)"
      unfolding narrow_x_translated[OF assms s] by (rule narrow_x_axis[OF assms s])
  next
    assume s: "\<forall>j<21. \<forall>k<21. p ! (3 * j + 1) - p ! (3 * k + 1) < 1"
    show "axis_min_range (col_y ?nl) = Inr (Fin (y_min_spec p), Fin 1)"
      unfolding narrow_y_translated[OF assms s] by (rule narrow_y_axis[OF assms s])
  qed
  have bounded: "(\<forall>v\<in>set p. \<bar>v\<bar> \<le> float_max / 4) \<longrightarrow>
            (\<exists>nl out mx rx my ry.
               translate_to_wrist (map Fin p) = Inr nl
             \<and> axis_min_range (col_x nl) = Inr (Fin mx, Fin rx) \<and> 1 \<le> rx
             \<and> axis_min_range (col_y nl) = Inr (Fin my, Fin ry) \<and> 1 \<le> ry
             \<and> ((\<forall>j<21. \<forall>k<21. p ! (3 * j) - p ! (3 * k) < 1) \<longrightarrow> rx = 1)
             \<and> ((\<forall>j<21. \<forall>k<21. p ! (3 * j + 1) - p ! (3 * k + 1) < 1) \<longrightarrow> ry = 1)
             \<and> preprocess_landmarks (Some (map Fin p)) = Inr (Some out)
             \<and> length out = 63 \<and> (\<forall>s\<in>set out. is_fin s))"
  proof
    assume bd: "\<forall>v\<in>set p. \<bar>v\<bar> \<le> float_max / 4"
    note fits = bounded_fits[OF assms bd]
    let ?t = "map (\<lambda>(x, y, z). (Fin x, Fin y, Fin z)) (translate_spec p)"
    let ?out = "map Fin (normalize_spec p)"
    have fin: "\<forall>s\<in>set ?out. is_fin s" by simp
    have len: "length ?out = 63" using length_normalize_spec[OF assms] by simp
    have cx: "(\<forall>j<21. \<forall>k<21. p ! (3 * j) - p ! (3 * k) < 1) \<longrightarrow> x_range_spec p = 1"
      using x_range_clamped[OF assms] by blast
    have cy: "(\<forall>j<21. \<forall>k<21. p ! (3 * j + 1) - p ! (3 * k + 1) < 1) \<longrightarrow> y_range_spec p = 1"
      using y_range_clamped[OF assms] by blast
    show "\<exists>nl out mx rx my ry.
               translate_to_wrist (map Fin p) = Inr nl
             \<and> axis_min_range (col_x nl) = Inr (Fin mx, Fin rx) \<and> 1 \<le> rx
             \<and> axis_min_range (col_y nl) = Inr (Fin my, Fin ry) \<and> 1 \<le> ry
             \<and> ((\<forall>j<21. \<forall>k<21. p ! (3 * j) - p ! (3 * k) < 1) \<longrightarrow> rx = 1)
             \<and> ((\<forall>j<21. \<forall>k<21. p ! (3 * j + 1) - p ! (3 * k + 1) < 1) \<longrightarrow> ry = 1)
             \<and> preprocess_landmarks (Some (map Fin p)) = Inr (Some out)
             \<and> length out = 63 \<and> (\<forall>s\<in>set out. is_fin s)"
      apply (rule exI[of _ ?t], rule exI[of _ ?out])
      apply (rule exI[of _ "x_min_spec p"], rule exI[of _ "x_range_spec p"])
      apply (rule exI[of _ "y_min_spec p"], rule exI[of _ "y_range_spec p"])
      using translate_to_wrist_Fin[OF assms fits] axis_ranges_Fin[OF assms fits]
        x_range_spec_pos[of p] y_range_spec_pos[of p] cx cy
        preprocess_refines[OF assms fits] len fin
      by (intro conjI) assumption+
  qed
  from ident narrow bounded show ?thesis by (intro conjI)
qed

lemma identical_keypoints_nth:
  assumes "k < n"
  shows "concat (replicate n [a, b, c]) ! (3 * k) = a"
    and "concat (replicate n [a, b, c]) ! (3 * k + 1) = b"
    and "concat (replicate n [a, b, c]) ! (3 * k + 2) = c"
  using flatten_nth[of k "replicate n (a, b, c)"] assms
  by (simp_all add: flatten_replicate)

theorem degenerate_pose_is_defined_witness:
  "length (concat (replicate 21 [320, 240, 1 / 10 :: real])) = 63
   \<and> preprocess_landmarks (Some (map Fin (concat (replicate 21 [320, 240, 1 / 10]))))
       = Inr (Some (concat (replicate 21 [Fin (- 1), Fin (- 1), Fin 0])))
   \<and> (\<exists>nl. translate_to_wrist (map Fin (concat (replicate 21 [320, 240, 1 / 10]))) = Inr nl
          \<and> axis_min_range (col_x nl)
              = Inr (Fin (x_min_spec (concat (replicate 21 [320, 240, 1 / 10]))), Fin 1)
          \<and> axis_min_range (col_y nl)
              = Inr (Fin (y_min_spec (concat (replicate 21 [320, 240, 1 / 10]))), Fin 1))
   \<and> (\<exists>out. preprocess_landmarks (Some (map Fin (concat (replicate 21 [320, 240, 1 / 10]))))
                = Inr (Some out)
           \<and> length out = 63 \<and> list_all is_fin out)"
proof -
  let ?p = "concat (replicate 21 [320, 240, 1 / 10 :: real])"
  have len: "length ?p = 63" by (simp add: length_concat sum_list_replicate)
  have same: "\<forall>k<21. ?p ! (3 * k) = ?p ! 0 \<and> ?p ! (3 * k + 1) = ?p ! 1
                \<and> ?p ! (3 * k + 2) = ?p ! 2"
  proof (intro allI impI)
    fix k :: nat assume k: "k < 21"
    have z: "(0::nat) < 21" by simp
    note a = identical_keypoints_nth[OF k, of 320 240 "1 / 10 :: real"]
    note b = identical_keypoints_nth[OF z, of 320 240 "1 / 10 :: real",
               unfolded mult_0_right add_0_left]
    show "?p ! (3 * k) = ?p ! 0 \<and> ?p ! (3 * k + 1) = ?p ! 1 \<and> ?p ! (3 * k + 2) = ?p ! 2"
      by (simp only: a b simp_thms)
  qed
  have sx: "\<forall>j<21. \<forall>k<21. ?p ! (3 * j) - ?p ! (3 * k) < 1"
  proof (intro allI impI)
    fix j k :: nat assume "j < 21" "k < 21"
    with same have "?p ! (3 * j) = ?p ! 0" "?p ! (3 * k) = ?p ! 0" by blast+
    then show "?p ! (3 * j) - ?p ! (3 * k) < 1" by (simp only: diff_self zero_less_one)
  qed
  have sy: "\<forall>j<21. \<forall>k<21. ?p ! (3 * j + 1) - ?p ! (3 * k + 1) < 1"
  proof (intro allI impI)
    fix j k :: nat assume "j < 21" "k < 21"
    with same have "?p ! (3 * j + 1) = ?p ! 1" "?p ! (3 * k + 1) = ?p ! 1" by blast+
    then show "?p ! (3 * j + 1) - ?p ! (3 * k + 1) < 1" by (simp only: diff_self zero_less_one)
  qed
  have "\<forall>v\<in>set ?p. \<bar>v\<bar> \<le> 1000" by auto
  with float_max_quarter have bd: "\<forall>v\<in>set ?p. \<bar>v\<bar> \<le> float_max / 4"
    by (meson order_trans)
  note th = degenerate_pose_is_defined[OF len]
  from th[THEN conjunct1, THEN mp, OF same]
  have a: "preprocess_landmarks (Some (map Fin ?p))
          = Inr (Some (concat (replicate 21 [Fin (- 1), Fin (- 1), Fin 0])))" .
  from th[THEN conjunct2, THEN conjunct1] sx sy
  have b: "\<exists>nl. translate_to_wrist (map Fin ?p) = Inr nl
          \<and> axis_min_range (col_x nl) = Inr (Fin (x_min_spec ?p), Fin 1)
          \<and> axis_min_range (col_y nl) = Inr (Fin (y_min_spec ?p), Fin 1)"
    by blast
  from th[THEN conjunct2, THEN conjunct2, THEN mp, OF bd]
  have c: "\<exists>out. preprocess_landmarks (Some (map Fin ?p)) = Inr (Some out)
           \<and> length out = 63 \<and> list_all is_fin out"
    unfolding list_all_iff by blast
  from len a b c show ?thesis by (simp only: simp_thms)
qed

section \<open>Properties of the validity check\<close>

lemma list_ex_col_x:
  assumes "length a = 63"
  shows "list_ex P (col_x (rows3 a)) \<longleftrightarrow> (\<exists>k<21. P (a ! (3 * k)))"
proof -
  have len: "length (col_x (rows3 a)) = 21" using assms by (simp add: col_x_def length_rows3)
  have nth: "\<And>k. k < 21 \<Longrightarrow> col_x (rows3 a) ! k = a ! (3 * k)"
    using assms by (simp add: col_x_def length_rows3 rows3_nth)
  show ?thesis unfolding list_ex_length len using nth by auto
qed

lemma list_ex_col_y:
  assumes "length a = 63"
  shows "list_ex P (col_y (rows3 a)) \<longleftrightarrow> (\<exists>k<21. P (a ! (3 * k + 1)))"
proof -
  have len: "length (col_y (rows3 a)) = 21" using assms by (simp add: col_y_def length_rows3)
  have nth: "\<And>k. k < 21 \<Longrightarrow> col_y (rows3 a) ! k = a ! (3 * k + 1)"
    using assms by (simp add: col_y_def length_rows3 rows3_nth)
  show ?thesis unfolding list_ex_length len using nth by auto
qed

lemma in_bound_Fin:
  "\<not> is_nan s \<Longrightarrow> \<not> is_inf s \<Longrightarrow>
   (\<not> flt s (Fin (- 1000)) \<and> \<not> fgt s (Fin 1000))
     \<longleftrightarrow> (\<exists>r. s = Fin r \<and> - 1000 \<le> r \<and> r \<le> 1000)"
  by (cases s) (auto simp: fgt_def)

lemma validate_Some:
  "validate_landmarks (Some a) = Inr True \<longleftrightarrow>
     length a = 63 \<and> (\<forall>s\<in>set a. \<not> is_nan s \<and> \<not> is_inf s)
     \<and> (\<forall>k<21. \<not> flt (a ! (3 * k)) (Fin (- 1000)) \<and> \<not> fgt (a ! (3 * k)) (Fin 1000)
              \<and> \<not> flt (a ! (3 * k + 1)) (Fin (- 1000)) \<and> \<not> fgt (a ! (3 * k + 1)) (Fin 1000))"
proof (cases "length a = 63")
  case False
  then show ?thesis by (simp add: validate_landmarks_def)
next
  case True
  have v: "validate_landmarks (Some a) = Inr True \<longleftrightarrow>
      \<not> (list_ex is_nan a \<or> list_ex is_inf a)
      \<and> \<not> (list_ex (\<lambda>x. flt x (Fin (- 1000))) (col_x (rows3 a))
            \<or> list_ex (\<lambda>x. fgt x (Fin 1000)) (col_x (rows3 a)))
      \<and> \<not> (list_ex (\<lambda>y. flt y (Fin (- 1000))) (col_y (rows3 a))
            \<or> list_ex (\<lambda>y. fgt y (Fin 1000)) (col_y (rows3 a)))"
    using True
    by (simp add: validate_landmarks_def reshape_21_3_def bind_exc_def Let_def)
  have n: "\<not> (list_ex is_nan a \<or> list_ex is_inf a)
             \<longleftrightarrow> (\<forall>s\<in>set a. \<not> is_nan s \<and> \<not> is_inf s)"
    by (auto simp: list_ex_iff)
  show ?thesis
    unfolding v n list_ex_col_x[OF True] list_ex_col_y[OF True]
    using True by blast
qed

lemma validate_returns: "validate_landmarks v = Inr True \<or> validate_landmarks v = Inr False"
  by (auto simp: validate_landmarks_def reshape_21_3_def bind_exc_def Let_def split: option.splits)

lemma validate_iff:
  "validate_landmarks v = Inr True \<longleftrightarrow>
     (\<exists>a. v = Some a \<and> length a = 63 \<and> (\<forall>s\<in>set a. \<not> is_nan s \<and> \<not> is_inf s)
        \<and> (\<forall>k<21. \<exists>x y. a ! (3 * k) = Fin x \<and> a ! (3 * k + 1) = Fin y
               \<and> - 1000 \<le> x \<and> x \<le> 1000 \<and> - 1000 \<le> y \<and> y \<le> 1000))"
proof (cases v)
  case None
  then show ?thesis by (simp add: validate_landmarks_def)
next
  case (Some a)
  show ?thesis
  proof
    assume ok: "validate_landmarks v = Inr True"
    then have len: "length a = 63" and fin: "\<forall>s\<in>set a. \<not> is_nan s \<and> \<not> is_inf s"
      and bd: "\<forall>k<21. \<not> flt (a ! (3 * k)) (Fin (- 1000)) \<and> \<not> fgt (a ! (3 * k)) (Fin 1000)
              \<and> \<not> flt (a ! (3 * k + 1)) (Fin (- 1000)) \<and> \<not> fgt (a ! (3 * k + 1)) (Fin 1000)"
      unfolding Some validate_Some by blast+
    have "\<forall>k<21. \<exists>x y. a ! (3 * k) = Fin x \<and> a ! (3 * k + 1) = Fin y
               \<and> - 1000 \<le> x \<and> x \<le> 1000 \<and> - 1000 \<le> y \<and> y \<le> 1000"
    proof (intro allI impI)
      fix k :: nat assume k: "k < 21"
      then have "a ! (3 * k) \<in> set a" and "a ! (3 * k + 1) \<in> set a" using len by simp_all
      with fin have f: "\<not> is_nan (a ! (3 * k))" "\<not> is_inf (a ! (3 * k))"
        "\<not> is_nan (a ! (3 * k + 1))" "\<not> is_inf (a ! (3 * k + 1))" by blast+
      from bd k in_bound_Fin[OF f(1,2)] in_bound_Fin[OF f(3,4)]
      show "\<exists>x y. a ! (3 * k) = Fin x \<and> a ! (3 * k + 1) = Fin y
               \<and> - 1000 \<le> x \<and> x \<le> 1000 \<and> - 1000 \<le> y \<and> y \<le> 1000" by blast
    qed
    with Some len fin show "\<exists>a. v = Some a \<and> length a = 63
        \<and> (\<forall>s\<in>set a. \<not> is_nan s \<and> \<not> is_inf s)
        \<and> (\<forall>k<21. \<exists>x y. a ! (3 * k) = Fin x \<and> a ! (3 * k + 1) = Fin y
               \<and> - 1000 \<le> x \<and> x \<le> 1000 \<and> - 1000 \<le> y \<and> y \<le> 1000)" by blast
  next
    assume "\<exists>a. v = Some a \<and> length a = 63 \<and> (\<forall>s\<in>set a. \<not> is_nan s \<and> \<not> is_inf s)
        \<and> (\<forall>k<21. \<exists>x y. a ! (3 * k) = Fin x \<and> a ! (3 * k + 1) = Fin y
               \<and> - 1000 \<le> x \<and> x \<le> 1000 \<and> - 1000 \<le> y \<and> y \<le> 1000)"
    with Some have len: "length a = 63" and fin: "\<forall>s\<in>set a. \<not> is_nan s \<and> \<not> is_inf s"
      and bd: "\<forall>k<21. \<exists>x y. a ! (3 * k) = Fin x \<and> a ! (3 * k + 1) = Fin y
               \<and> - 1000 \<le> x \<and> x \<le> 1000 \<and> - 1000 \<le> y \<and> y \<le> 1000" by auto
    have "\<forall>k<21. \<not> flt (a ! (3 * k)) (Fin (- 1000)) \<and> \<not> fgt (a ! (3 * k)) (Fin 1000)
              \<and> \<not> flt (a ! (3 * k + 1)) (Fin (- 1000)) \<and> \<not> fgt (a ! (3 * k + 1)) (Fin 1000)"
    proof (intro allI impI)
      fix k :: nat assume "k < 21"
      with bd obtain x y where "a ! (3 * k) = Fin x" "a ! (3 * k + 1) = Fin y"
        "- 1000 \<le> x" "x \<le> 1000" "- 1000 \<le> y" "y \<le> 1000" by blast
      then show "\<not> flt (a ! (3 * k)) (Fin (- 1000)) \<and> \<not> fgt (a ! (3 * k)) (Fin 1000)
              \<and> \<not> flt (a ! (3 * k + 1)) (Fin (- 1000)) \<and> \<not> fgt (a ! (3 * k + 1)) (Fin 1000)"
        by (simp add: fgt_def)
    qed
    with len fin show "validate_landmarks v = Inr True"
      unfolding Some validate_Some by blast
  qed
qed

lemma normalized_is_valid:
  assumes "length p = 63"
  shows "validate_landmarks (Some (map Fin (normalize_spec p))) = Inr True"
proof -
  let ?a = "map Fin (normalize_spec p)"
  have len: "length ?a = 63" using length_normalize_spec[OF assms] by simp
  have fin: "\<forall>s\<in>set ?a. \<not> is_nan s \<and> \<not> is_inf s" by auto
  have bd: "\<forall>k<21. \<exists>x y. ?a ! (3 * k) = Fin x \<and> ?a ! (3 * k + 1) = Fin y
               \<and> - 1000 \<le> x \<and> x \<le> 1000 \<and> - 1000 \<le> y \<and> y \<le> 1000"
  proof (intro allI impI)
    fix k :: nat assume k: "k < 21"
    have i: "3 * k < length (normalize_spec p)" "3 * k + 1 < length (normalize_spec p)"
      using k length_normalize_spec[OF assms] by simp_all
    from normalize_spec_bounds[OF assms k] i
    show "\<exists>x y. ?a ! (3 * k) = Fin x \<and> ?a ! (3 * k + 1) = Fin y
               \<and> - 1000 \<le> x \<and> x \<le> 1000 \<and> - 1000 \<le> y \<and> y \<le> 1000"
      by (intro exI[of _ "normalize_spec p ! (3 * k)"] exI[of _ "normalize_spec p ! (3 * k + 1)"])
         (simp del: add_Suc_right One_nat_def)
  qed
  from len fin bd show ?thesis unfolding validate_iff by blast
qed

lemma bounded_pose_valid:
  assumes "length p = 63" and "\<forall>v\<in>set p. \<bar>v\<bar> \<le> float_max / 4"
  shows "\<exists>out. preprocess_landmarks (Some (map Fin p)) = Inr (Some out)
               \<and> validate_landmarks (Some out) = Inr True"
  using preprocess_refines[OF assms(1) bounded_fits[OF assms]] normalized_is_valid[OF assms(1)]
  by blast

lemma far_z_translated:
  "translate_to_wrist (map Fin pose_far_z)
     = Inr ((Fin 0, Fin 0, Fin 0) # (Fin 0, Fin 0, PInf) # replicate 19 (Fin 0, Fin 0, Fin far))"
proof -
  have len: "length pose_far_z = 63" by (simp add: pose_far_z_def)
  have "replicate 57 (0 :: real) = replicate (3 * 19) 0" by simp
  then have rows: "rows3 pose_far_z = (0, 0, - far) # (0, 0, far) # replicate 19 (0, 0, 0)"
    unfolding pose_far_z_def by (simp only: append.simps rows3.simps rows3_replicate)
  have p: "pose_far_z ! 0 = 0" "pose_far_z ! 1 = 0" "pose_far_z ! 2 = - far"
    by (simp_all add: pose_far_z_def)
  show ?thesis
    unfolding translate_to_wrist_eq[OF len] rows p
    by (simp add: far_sub)
qed

text \<open>
  C8, as stated, fails in its second half: in the pose \<open>pose_far_z\<close> the translation
  of keypoint 1 overflows to infinity in z, which is not rescaled; the result of
  \<open>preprocess_landmarks\<close> holds that infinity, and \<open>validate_landmarks\<close> returns false
  on it.
\<close>

theorem far_pose_normalized_is_invalid:
  "preprocess_landmarks (Some (map Fin pose_far_z))
     = Inr (Some ([Fin (- 1), Fin (- 1), Fin 0, Fin (- 1), Fin (- 1), PInf]
                  @ concat (replicate 19 [Fin (- 1), Fin (- 1), Fin far])))
   \<and> validate_landmarks (Some ([Fin (- 1), Fin (- 1), Fin 0, Fin (- 1), Fin (- 1), PInf]
                  @ concat (replicate 19 [Fin (- 1), Fin (- 1), Fin far])))
     = Inr False"
proof -
  have a: "preprocess_landmarks (Some (map Fin pose_far_z))
     = Inr (Some ([Fin (- 1), Fin (- 1), Fin 0, Fin (- 1), Fin (- 1), PInf]
                  @ concat (replicate 19 [Fin (- 1), Fin (- 1), Fin far])))"
    unfolding preprocess_landmarks_def
    by (simp add: far_z_translated bind_exc_def col_x_def col_y_def far_axis far_rescale
          flatten_def)
  have b: "validate_landmarks (Some ([Fin (- 1), Fin (- 1), Fin 0, Fin (- 1), Fin (- 1), PInf]
                  @ concat (replicate 19 [Fin (- 1), Fin (- 1), Fin far])))
     = Inr False"
    by (simp add: validate_landmarks_def length_concat sum_list_replicate)
  from a b show ?thesis by (rule conjI)
qed

text \<open>
  C8, amended: \<open>validate_landmarks\<close> returns true exactly for a vector of 63 elements
  none of which is NaN or infinite and whose x and y components are all within
  [-1000, 1000]; otherwise it returns false, and it never raises. For every pose of 21
  keypoints whose coordinates are at most a quarter of the largest finite \<open>float32\<close>
  number in magnitude, what \<open>preprocess_landmarks\<close> returns passes the check.
\<close>

theorem validate_landmarks_iff_and_normalized_valid:
  "(validate_landmarks v = Inr True \<longleftrightarrow>
      (\<exists>a. v = Some a \<and> length a = 63 \<and> (\<forall>s\<in>set a. \<not> is_nan s \<and> \<not> is_inf s)
         \<and> (\<forall>k<21. \<exists>x y. a ! (3 * k) = Fin x \<and> a ! (3 * k + 1) = Fin y
                \<and> - 1000 \<le> x \<and> x \<le> 1000 \<and> - 1000 \<le> y \<and> y \<le> 1000)))
   \<and> (validate_landmarks v = Inr True \<or> validate_landmarks v = Inr False)
   \<and> (\<forall>p. length p = 63 \<and> (\<forall>c\<in>set p. \<bar>c\<bar> \<le> float_max / 4) \<longrightarrow>
         (\<exists>out. preprocess_landmarks (Some (map Fin p)) = Inr (Some out)
               \<and> validate_landmarks (Some out) = Inr True))"
  using validate_iff[of v] validate_returns[of v] bounded_pose_valid
  by blast

theorem validate_landmarks_iff_and_normalized_valid_witness:
  "length (concat (replicate 21 [320, 240, 1 / 10 :: real])) = 63
   \<and> (\<exists>out. preprocess_landmarks (Some (map Fin (concat (replicate 21 [320, 240, 1 / 10]))))
                = Inr (Some out)
             \<and> validate_landmarks (Some out) = Inr True)
   \<and> validate_landmarks (Some (replicate 63 NaN)) = Inr False
   \<and> validate_landmarks None = Inr False"
proof -
  let ?p = "concat (replicate 21 [320, 240, 1 / 10 :: real])"
  have len: "length ?p = 63" by (simp add: length_concat sum_list_replicate)
  have "\<forall>v\<in>set ?p. \<bar>v\<bar> \<le> 1000" by auto
  with float_max_quarter have bd: "\<forall>v\<in>set ?p. \<bar>v\<bar> \<le> float_max / 4"
    by (meson order_trans)
  note th = validate_landmarks_iff_and_normalized_valid
  have a: "\<exists>out. preprocess_landmarks (Some (map Fin ?p)) = Inr (Some out)
             \<and> validate_landmarks (Some out) = Inr True"
    using th[of None, THEN conjunct2, THEN conjunct2] len bd by blast
  have "NaN \<in> set (replicate 63 NaN)" by simp
  then have "\<not> (\<exists>a. Some (replicate 63 NaN) = Some a \<and> length a = 63
        \<and> (\<forall>s\<in>set a. \<not> is_nan s \<and> \<not> is_inf s)
        \<and> (\<forall>k<21. \<exists>x y. a ! (3 * k) = Fin x \<and> a ! (3 * k + 1) = Fin y
               \<and> - 1000 \<le> x \<and> x \<le> 1000 \<and> - 1000 \<le> y \<and> y \<le> 1000))"
    by (metis is_nan.simps(1) option.inject)
  with th[of "Some (replicate 63 NaN)"]
  have b: "validate_landmarks (Some (replicate 63 NaN)) = Inr False" by blast
  have c: "validate_landmarks None = Inr False"
    using th[of None] by blast
  from len a b c show ?thesis by (simp only: simp_thms)
qed

end
